theory Spec2Isabelle
  imports Main
begin

section \<open>Values exchanged between server and display clients\<close>

text \<open>
  The server broadcasts plain objects \<^verbatim>\<open>{ type: 'partial', text: msg.text }\<close> and
  \<^verbatim>\<open>{ type: 'final', text: msg.text }\<close>; the client reads whatever \<^verbatim>\<open>JSON.parse\<close>
  returns. Both sides therefore work on JSON values. A number is kept as the decimal
  text JavaScript prints for it; an object is the list of its properties as they are
  written, in the order of the literal or of the parsed text, where a later duplicate
  of a key overrides an earlier one.
\<close>

datatype json =
    JNull
  | JBool bool
  | JNum string
  | JStr string
  | JArr "json list"
  | JObj "(string \<times> json) list"

datatype js_error = SyntaxError | TypeError | StreamError | ServiceError string

fun intercalate :: "string \<Rightarrow> string list \<Rightarrow> string" where
  "intercalate sep [] = []"
| "intercalate sep [x] = x"
| "intercalate sep (x # y # ys) = x @ sep @ intercalate sep (y # ys)"

subsection \<open>Reading a property, and the text a DOM node shows for a value\<close>

text \<open>
  \<^verbatim>\<open>data.type\<close> and \<^verbatim>\<open>data.text\<close> on a value that is not \<^verbatim>\<open>null\<close>: an object yields
  its own property (the last one written under that key) or \<^verbatim>\<open>undefined\<close>
  (\<open>None\<close>); strings, numbers, booleans and arrays have no property of either
  name. Reading a property of \<^verbatim>\<open>null\<close> throws; the handler below models that case
  itself.
\<close>

fun property :: "string \<Rightarrow> json \<Rightarrow> json option" where
  "property k (JObj kvs) = map_of (rev kvs) k"
| "property k _ = None"

text \<open>
  JavaScript's conversion of a value to a string. An array joins the conversions of its
  elements, \<^verbatim>\<open>null\<close> counting as the empty text; the first element whose conversion
  throws decides the error (\<open>collect\<close>). An object is converted by its
  \<^verbatim>\<open>toString\<close> method: a parsed object that has a property of that name hides the
  inherited method behind a value that cannot be called, and the conversion throws a
  \<^verbatim>\<open>TypeError\<close>; every other object gives \<^verbatim>\<open>[object Object]\<close>.
\<close>

definition collect :: "(js_error + string) list \<Rightarrow> js_error + string list" where
  "collect rs =
     foldr (\<lambda>r rest.
              case r of
                Inl e \<Rightarrow> Inl e
              | Inr x \<Rightarrow> (case rest of Inl e \<Rightarrow> Inl e | Inr xs \<Rightarrow> Inr (x # xs)))
       rs (Inr [])"

fun to_string :: "json \<Rightarrow> js_error + string" where
  "to_string JNull = Inr ''null''"
| "to_string (JBool b) = Inr (if b then ''true'' else ''false'')"
| "to_string (JNum n) = Inr n"
| "to_string (JStr s) = Inr s"
| "to_string (JArr xs) =
     (case collect (map (\<lambda>x. if x = JNull then Inr [] else to_string x) xs) of
        Inl e \<Rightarrow> Inl e
      | Inr ss \<Rightarrow> Inr (intercalate '','' ss))"
| "to_string (JObj kvs) =
     (if ''toString'' \<in> set (map fst kvs) then Inl TypeError else Inr ''[object Object]'')"

text \<open>
  The text an assignment to \<^verbatim>\<open>textContent\<close> stores: \<^verbatim>\<open>undefined\<close> and \<^verbatim>\<open>null\<close> give
  the empty text, every other value its string conversion, which may throw.
\<close>

definition dom_text :: "json option \<Rightarrow> js_error + string" where
  "dom_text v = (case v of None \<Rightarrow> Inr [] | Some JNull \<Rightarrow> Inr [] | Some j \<Rightarrow> to_string j)"

section \<open>The display client\<close>

text \<open>
  The page keeps the container \<^verbatim>\<open>transcriptsEl\<close> and the variable \<^verbatim>\<open>partialEl\<close>.
  Elements are objects with identity: the model keeps every element created so far in
  \<open>elements\<close> and refers to one by its index, so that \<^verbatim>\<open>partialEl\<close> and the
  container's child list can share an element.
\<close>

record element =
  className :: string
  textContent :: string

record client =
  elements :: "element list"
  transcripts :: "nat list"
  partialEl :: "nat option"
  console :: "(string \<times> js_error) list"

text \<open>
  Modelled from the spec: the page markup, which gives the container its first children,
  is not among the sources. The specification starts the reconciler in \<open>Idle\<close> with
  nothing displayed, so the container starts empty.
\<close>

definition init_client :: client where
  "init_client = \<lparr>elements = [], transcripts = [], partialEl = None, console = []\<rparr>"

definition createElement :: "client \<Rightarrow> nat \<times> client" where
  "createElement st =
     (length (elements st),
      st\<lparr>elements := elements st @ [\<lparr>className = [], textContent = []\<rparr>]\<rparr>)"

definition set_className :: "nat \<Rightarrow> string \<Rightarrow> client \<Rightarrow> client" where
  "set_className el c st =
     st\<lparr>elements := (elements st)[el := (elements st ! el)\<lparr>className := c\<rparr>]\<rparr>"

definition set_textContent :: "nat \<Rightarrow> string \<Rightarrow> client \<Rightarrow> client" where
  "set_textContent el t st =
     st\<lparr>elements := (elements st)[el := (elements st ! el)\<lparr>textContent := t\<rparr>]\<rparr>"

text \<open>
  The statement \<^verbatim>\<open>el.textContent = v\<close>: when the conversion of \<open>v\<close> throws, nothing
  is stored and the error is passed on.
\<close>

definition assign_textContent :: "nat \<Rightarrow> json option \<Rightarrow> client \<Rightarrow> client \<times> js_error option" where
  "assign_textContent el v st =
     (case dom_text v of
        Inl e \<Rightarrow> (st, Some e)
      | Inr t \<Rightarrow> (set_textContent el t st, None))"

text \<open>\<^verbatim>\<open>appendChild\<close> moves a node that is already a child to the end.\<close>

definition appendChild :: "nat \<Rightarrow> client \<Rightarrow> client" where
  "appendChild el st = st\<lparr>transcripts := removeAll el (transcripts st) @ [el]\<rparr>"

definition remove_el :: "nat \<Rightarrow> client \<Rightarrow> client" where
  "remove_el el st = st\<lparr>transcripts := removeAll el (transcripts st)\<rparr>"

text \<open>
  The outcome of \<^verbatim>\<open>JSON.parse(event.data)\<close>: it throws a \<^verbatim>\<open>SyntaxError\<close> on text
  that is not JSON, and returns the value otherwise.
\<close>

datatype parse_outcome = NotJSON | Parsed json

text \<open>
  The body of the \<^verbatim>\<open>try\<close> block, with the state it has reached and the error it
  has thrown, if any. The parse and \<^verbatim>\<open>data.type\<close> on \<^verbatim>\<open>null\<close> throw before anything
  is changed; an assignment to \<^verbatim>\<open>textContent\<close> that throws leaves what the statements
  before it have done.
\<close>

definition try_block :: "parse_outcome \<Rightarrow> client \<Rightarrow> client \<times> js_error option" where
  "try_block p st =
     (case p of
        NotJSON \<Rightarrow> (st, Some SyntaxError)
      | Parsed data \<Rightarrow>
          if data = JNull then (st, Some TypeError)
          else if property ''type'' data = Some (JStr ''partial'') then
            (case partialEl st of
               None \<Rightarrow>
                 (let (el, st1) = createElement st;
                      st2 = st1\<lparr>partialEl := Some el\<rparr>;
                      st3 = set_className el ''partial'' st2;
                      st4 = appendChild el st3
                  in assign_textContent el (property ''text'' data) st4)
             | Some el \<Rightarrow> assign_textContent el (property ''text'' data) st)
          else if property ''type'' data = Some (JStr ''final'') then
            (let (finalEl, st1) = createElement st;
                 st2 = set_className finalEl ''final'' st1
             in case assign_textContent finalEl (property ''text'' data) st2 of
                  (st3, Some e) \<Rightarrow> (st3, Some e)
                | (st3, None) \<Rightarrow>
                    (let st4 = appendChild finalEl st3
                     in case partialEl st4 of
                          None \<Rightarrow> (st4, None)
                        | Some el \<Rightarrow> ((remove_el el st4)\<lparr>partialEl := None\<rparr>, None)))
          else (st, None))"

text \<open>
  The handler: the \<^verbatim>\<open>catch\<close> clause logs and returns, so an error of the body
  becomes a normal return, from the state the body had reached.
\<close>

definition onmessage :: "parse_outcome \<Rightarrow> client \<Rightarrow> js_error + client" where
  "onmessage p st =
     (case try_block p st of
        (st', Some e) \<Rightarrow> Inr (st'\<lparr>console := console st' @ [(''Failed to parse SSE data'', e)]\<rparr>)
      | (st', None) \<Rightarrow> Inr st')"

text \<open>Messages arrive one after another; an error that left the handler would end the run.\<close>

fun run :: "parse_outcome list \<Rightarrow> client \<Rightarrow> js_error + client" where
  "run [] st = Inr st"
| "run (p # ps) st = (case onmessage p st of Inl e \<Rightarrow> Inl e | Inr st' \<Rightarrow> run ps st')"

section \<open>Transcript events and the reconciler's specification\<close>

text \<open>
  The server sends two shapes of message (see the two transcript handlers below); after
  the round trip through \<^verbatim>\<open>JSON.stringify\<close> and \<^verbatim>\<open>JSON.parse\<close> the client sees the same
  object.
\<close>

datatype event = Partial string | Final string

fun payload :: "event \<Rightarrow> json" where
  "payload (Partial t) = JObj [(''type'', JStr ''partial''), (''text'', JStr t)]"
| "payload (Final t) = JObj [(''type'', JStr ''final''), (''text'', JStr t)]"

text \<open>
  What the page shows: the children of the container in document order, each read by
  its class. An element of class \<^verbatim>\<open>final\<close> is a permanent line, one of class
  \<^verbatim>\<open>partial\<close> is the line in progress.
\<close>

datatype item = Permanent string | Provisional string | Foreign

definition item_of :: "element \<Rightarrow> item" where
  "item_of e =
     (if className e = ''final'' then Permanent (textContent e)
      else if className e = ''partial'' then Provisional (textContent e)
      else Foreign)"

definition display :: "client \<Rightarrow> item list" where
  "display st = map (\<lambda>i. item_of (elements st ! i)) (transcripts st)"

datatype rstate = Idle | InProgress string

definition reconciler_state :: "client \<Rightarrow> rstate" where
  "reconciler_state st =
     (case partialEl st of None \<Rightarrow> Idle | Some el \<Rightarrow> InProgress (textContent (elements st ! el)))"

definition view :: "client \<Rightarrow> item list \<times> rstate" where
  "view st = (display st, reconciler_state st)"

text \<open>
  The state machine as the specification words it, on the displayed lines and the
  reconciler state. It is written from the four rows of the table, not from the code,
  and is compared with the handler below.
\<close>

fun is_provisional :: "item \<Rightarrow> bool" where
  "is_provisional (Provisional t) = True"
| "is_provisional _ = False"

fun retext :: "string \<Rightarrow> item \<Rightarrow> item" where
  "retext t' (Provisional t) = Provisional t'"
| "retext t' x = x"

fun spec_step :: "item list \<times> rstate \<Rightarrow> event \<Rightarrow> item list \<times> rstate" where
  "spec_step (d, Idle) (Partial t) = (d @ [Provisional t], InProgress t)"
| "spec_step (d, InProgress t) (Partial t') = (map (retext t') d, InProgress t')"
| "spec_step (d, InProgress t) (Final t'') =
     (filter (\<lambda>x. \<not> is_provisional x) d @ [Permanent t''], Idle)"
| "spec_step (d, Idle) (Final t'') = (d @ [Permanent t''], Idle)"

text \<open>
  The states the page can be in: every child of the container is an element that
  exists, no element is a child twice, and the element \<^verbatim>\<open>partialEl\<close> refers to, if
  any, is a child and is the only child of class \<^verbatim>\<open>partial\<close>.
\<close>

definition wf_client :: "client \<Rightarrow> bool" where
  "wf_client st \<longleftrightarrow>
     distinct (transcripts st) \<and>
     (\<forall>i \<in> set (transcripts st). i < length (elements st)) \<and>
     (case partialEl st of
        None \<Rightarrow> (\<forall>i \<in> set (transcripts st). className (elements st ! i) \<noteq> ''partial'')
      | Some el \<Rightarrow>
          el \<in> set (transcripts st) \<and> className (elements st ! el) = ''partial'' \<and>
          (\<forall>i \<in> set (transcripts st). i \<noteq> el \<longrightarrow> className (elements st ! i) \<noteq> ''partial''))"

section \<open>The server\<close>

subsection \<open>Serialisation\<close>

text \<open>
  The properties of an object, as JavaScript keeps them: writing a key that is already
  there replaces its value and keeps its place; the keys that are array indices (a
  decimal numeral without leading zero, below \<open>2^32 - 1\<close>) come first, in numeric
  order, then the other keys in the order they were first written.
\<close>

definition is_digit :: "char \<Rightarrow> bool" where
  "is_digit c \<longleftrightarrow> 48 \<le> (of_char c :: nat) \<and> (of_char c :: nat) \<le> 57"

definition digits_value :: "string \<Rightarrow> nat" where
  "digits_value k = foldl (\<lambda>n c. 10 * n + ((of_char c :: nat) - 48)) 0 k"

definition is_array_index :: "string \<Rightarrow> bool" where
  "is_array_index k \<longleftrightarrow>
     k \<noteq> [] \<and> list_all is_digit k \<and> (k = ''0'' \<or> take 1 k \<noteq> ''0'') \<and>
     digits_value k < 4294967295"

fun set_property :: "string \<Rightarrow> 'a \<Rightarrow> (string \<times> 'a) list \<Rightarrow> (string \<times> 'a) list" where
  "set_property k v [] = [(k, v)]"
| "set_property k v ((k', v') # ps) =
     (if k' = k then (k, v) # ps else (k', v') # set_property k v ps)"

definition own_properties :: "(string \<times> 'a) list \<Rightarrow> (string \<times> 'a) list" where
  "own_properties kvs =
     (let ps = foldl (\<lambda>ps (k, v). set_property k v ps) [] kvs
      in sort_key (\<lambda>(k, v). digits_value k) (filter (\<lambda>(k, v). is_array_index k) ps) @
         filter (\<lambda>(k, v). \<not> is_array_index k) ps)"

text \<open>
  \<^verbatim>\<open>JSON.stringify\<close> on a JSON value: strings are quoted, with the quote, the backslash
  and the control characters escaped; an object prints its properties in the order
  above.
\<close>

definition hex_digit :: "nat \<Rightarrow> char" where
  "hex_digit n = ''0123456789abcdef'' ! (n mod 16)"

definition escape_char :: "char \<Rightarrow> string" where
  "escape_char c =
     (if c = CHR 0x22 then [CHR 0x5C, CHR 0x22]
      else if c = CHR 0x5C then [CHR 0x5C, CHR 0x5C]
      else if c = CHR 0x08 then [CHR 0x5C, CHR ''b'']
      else if c = CHR 0x0C then [CHR 0x5C, CHR ''f'']
      else if c = CHR 0x0A then [CHR 0x5C, CHR ''n'']
      else if c = CHR 0x0D then [CHR 0x5C, CHR ''r'']
      else if c = CHR 0x09 then [CHR 0x5C, CHR ''t'']
      else if (of_char c :: nat) < 32 then
        [CHR 0x5C, CHR ''u'', CHR ''0'', CHR ''0'',
         hex_digit ((of_char c :: nat) div 16), hex_digit ((of_char c :: nat) mod 16)]
      else [c])"

definition quote :: "string \<Rightarrow> string" where
  "quote s = [CHR 0x22] @ concat (map escape_char s) @ [CHR 0x22]"

fun json_stringify :: "json \<Rightarrow> string" where
  "json_stringify JNull = ''null''"
| "json_stringify (JBool b) = (if b then ''true'' else ''false'')"
| "json_stringify (JNum n) = n"
| "json_stringify (JStr s) = quote s"
| "json_stringify (JArr xs) = ''['' @ intercalate '','' (map json_stringify xs) @ '']''"
| "json_stringify (JObj kvs) =
     ''{'' @
     intercalate '',''
       (map (\<lambda>(k, s). quote k @ '':'' @ s)
          (own_properties (map (\<lambda>(k, v). (k, json_stringify v)) kvs))) @
     ''}''"

subsection \<open>State and platform calls\<close>

text \<open>
  A response object \<^verbatim>\<open>res\<close> is identified by a number. What \<^verbatim>\<open>res.write\<close> does is
  decided by the stream behind it, outside the program: it takes the chunk, or it
  reports failure by returning \<^verbatim>\<open>false\<close> (the chunk is lost), or it throws.
\<close>

datatype write_status = Accepting | Rejecting | Throwing js_error

fun throws :: "write_status \<Rightarrow> bool" where
  "throws (Throwing e) = True"
| "throws _ = False"

text \<open>The calls the server makes on the platform and on its libraries, as a log.\<close>

datatype call =
    JSONStringify json
  | ResWrite nat string
  | SetInterval nat
  | ClearInterval nat
  | ConsoleLog string
  | ConsoleError string "js_error option"
  | NewAssemblyAI string
  | CreateService
  | RealtimeOn string
  | RealtimeConnect
  | RecorderRecord
  | MicStream
  | MicStreamOn string
  | Pipe

text \<open>
  \<open>sseClients\<close> is the module variable of that name. \<open>timers\<close> holds the interval
  timers that are scheduled, \<open>next_timer\<close> the handle the next \<^verbatim>\<open>setInterval\<close> returns.
  \<open>writable\<close> is the status of each response's stream, \<open>received\<close> the chunks each
  response has taken, \<open>calls\<close> the log. The headers set on a new response and the
  callback of the keep-alive timer are left out: no statement below is about them.
\<close>

record server =
  sseClients :: "nat list"
  timers :: "nat list"
  next_timer :: nat
  writable :: "nat \<Rightarrow> write_status"
  received :: "nat \<Rightarrow> string list"
  calls :: "call list"

definition init_server :: server where
  "init_server =
     \<lparr>sseClients = [], timers = [], next_timer = 0,
      writable = (\<lambda>res. Accepting), received = (\<lambda>res. []), calls = []\<rparr>"

definition called :: "call \<Rightarrow> server \<Rightarrow> server" where
  "called c s = s\<lparr>calls := calls s @ [c]\<rparr>"

definition res_write :: "nat \<Rightarrow> string \<Rightarrow> server \<Rightarrow> server \<times> js_error option" where
  "res_write res chunk s =
     (let s1 = called (ResWrite res chunk) s
      in case writable s1 res of
           Accepting \<Rightarrow> (s1\<lparr>received := (received s1)(res := received s1 res @ [chunk])\<rparr>, None)
         | Rejecting \<Rightarrow> (s1, None)
         | Throwing e \<Rightarrow> (s1, Some e))"

definition setInterval :: "server \<Rightarrow> nat \<times> server" where
  "setInterval s =
     (next_timer s,
      (called (SetInterval (next_timer s)) s)
        \<lparr>timers := timers s @ [next_timer s], next_timer := Suc (next_timer s)\<rparr>)"

definition clearInterval :: "nat \<Rightarrow> server \<Rightarrow> server" where
  "clearInterval t s = (called (ClearInterval t) s)\<lparr>timers := removeAll t (timers s)\<rparr>"

subsection \<open>broadcast\<close>

text \<open>
  \<^verbatim>\<open>sseClients.forEach\<close> calls \<^verbatim>\<open>res.write(formatted)\<close> for each element in order. The
  code has no \<^verbatim>\<open>try\<close>: an error thrown by a write ends the loop and leaves
  \<^verbatim>\<open>broadcast\<close>. The result is the state reached and the error, if one was thrown.
\<close>

fun forEach_write :: "string \<Rightarrow> nat list \<Rightarrow> server \<Rightarrow> server \<times> js_error option" where
  "forEach_write formatted [] s = (s, None)"
| "forEach_write formatted (res # rest) s =
     (case res_write res formatted s of
        (s1, Some e) \<Rightarrow> (s1, Some e)
      | (s1, None) \<Rightarrow> forEach_write formatted rest s1)"

definition broadcast :: "json \<Rightarrow> server \<Rightarrow> server \<times> js_error option" where
  "broadcast data s =
     (let formatted = ''data: '' @ json_stringify data @ [CHR 0x0A, CHR 0x0A];
          s1 = called (JSONStringify data) s
      in forEach_write formatted (sseClients s1) s1)"

abbreviation frame :: "json \<Rightarrow> string" where
  "frame data \<equiv> ''data: '' @ json_stringify data @ [CHR 0x0A, CHR 0x0A]"

text \<open>The two transcript handlers registered by \<^verbatim>\<open>startStreaming\<close>.\<close>

definition on_transcript_partial :: "string \<Rightarrow> server \<Rightarrow> server \<times> js_error option" where
  "on_transcript_partial text s =
     broadcast (JObj [(''type'', JStr ''partial''), (''text'', JStr text)]) s"

definition on_transcript_final :: "string \<Rightarrow> server \<Rightarrow> server \<times> js_error option" where
  "on_transcript_final text s =
     broadcast (JObj [(''type'', JStr ''final''), (''text'', JStr text)]) s"

subsection \<open>The events endpoint and the close handler\<close>

text \<open>
  The handler of \<^verbatim>\<open>GET /events\<close> receives the response object. It writes the opening
  comment, starts the keep-alive timer, pushes the response on \<^verbatim>\<open>sseClients\<close> and
  registers the close handler, which keeps \<^verbatim>\<open>keepAlive\<close> and \<^verbatim>\<open>res\<close> in its closure:
  that closure is the \<open>conn\<close> returned here.
\<close>

record conn =
  conn_res :: nat
  conn_keepAlive :: nat

definition get_events :: "nat \<Rightarrow> server \<Rightarrow> server \<times> (js_error + conn)" where
  "get_events res s =
     (case res_write res ('': connected'' @ [CHR 0x0A, CHR 0x0A]) s of
        (s1, Some e) \<Rightarrow> (s1, Inl e)
      | (s1, None) \<Rightarrow>
          (let (keepAlive, s2) = setInterval s1;
               s3 = s2\<lparr>sseClients := sseClients s2 @ [res]\<rparr>
           in (s3, Inr \<lparr>conn_res = res, conn_keepAlive = keepAlive\<rparr>)))"

text \<open>
  The close handler. Neither \<^verbatim>\<open>clearInterval\<close> nor \<^verbatim>\<open>filter\<close> can throw, so the
  handler has no failing branch. \<^verbatim>\<open>filter\<close> builds a new array and the variable is
  bound to it; the array a running \<^verbatim>\<open>forEach\<close> walks is not changed.
\<close>

definition on_close :: "conn \<Rightarrow> server \<Rightarrow> server" where
  "on_close c s =
     (let s1 = clearInterval (conn_keepAlive c) s
      in s1\<lparr>sseClients := filter (\<lambda>client. client \<noteq> conn_res c) (sseClients s1)\<rparr>)"

text \<open>
  The loop of \<^verbatim>\<open>broadcast\<close> with close handlers running between two writes:
  \<open>closing res\<close> lists the connections whose close handler runs once the write to
  \<open>res\<close> has returned. The loop still walks the array it started on.
\<close>

fun forEach_write_closing ::
  "(nat \<Rightarrow> conn list) \<Rightarrow> string \<Rightarrow> nat list \<Rightarrow> server \<Rightarrow> server \<times> js_error option" where
  "forEach_write_closing closing formatted [] s = (s, None)"
| "forEach_write_closing closing formatted (res # rest) s =
     (case res_write res formatted s of
        (s1, Some e) \<Rightarrow> (s1, Some e)
      | (s1, None) \<Rightarrow>
          forEach_write_closing closing formatted rest (fold on_close (closing res) s1))"

definition broadcast_closing ::
  "(nat \<Rightarrow> conn list) \<Rightarrow> json \<Rightarrow> server \<Rightarrow> server \<times> js_error option" where
  "broadcast_closing closing data s =
     (let formatted = ''data: '' @ json_stringify data @ [CHR 0x0A, CHR 0x0A];
          s1 = called (JSONStringify data) s
      in forEach_write_closing closing formatted (sseClients s1) s1)"

text \<open>Requests arriving one after the other; the connections that were set up are collected.\<close>

fun connect_all :: "nat list \<Rightarrow> server \<Rightarrow> conn list \<times> server" where
  "connect_all [] s = ([], s)"
| "connect_all (res # rest) s =
     (case get_events res s of
        (s1, Inl e) \<Rightarrow> connect_all rest s1
      | (s1, Inr c) \<Rightarrow> (let (cs, s2) = connect_all rest s1 in (c # cs, s2)))"

text \<open>The writes in a log, in order.\<close>

fun writes :: "call list \<Rightarrow> (nat \<times> string) list" where
  "writes [] = []"
| "writes (ResWrite res chunk # cs) = (res, chunk) # writes cs"
| "writes (c # cs) = writes cs"

subsection \<open>startStreaming\<close>

text \<open>
  \<open>apiKey\<close> is \<^verbatim>\<open>process.env.ASSEMBLYAI_API_KEY\<close>: absent, or a string; \<^verbatim>\<open>!apiKey\<close> holds
  for an absent key and for the empty string. \<open>connect_error\<close> is the error
  \<^verbatim>\<open>realtime.connect()\<close> rejects with, if it does. The result is the state and the
  error the returned promise rejects with, if any.
\<close>

definition startStreaming ::
  "string option \<Rightarrow> js_error option \<Rightarrow> server \<Rightarrow> server \<times> js_error option" where
  "startStreaming apiKey connect_error s =
     (if apiKey = None \<or> apiKey = Some [] then
        (called (ConsoleError
           ''ASSEMBLYAI_API_KEY is not defined. Please set it in the environment.'' None) s, None)
      else
        (let s1 = fold called
               [NewAssemblyAI (the apiKey), CreateService, RealtimeOn ''open'',
                RealtimeOn ''transcript.partial'', RealtimeOn ''transcript.final'',
                RealtimeOn ''error'', RealtimeConnect] s
         in case connect_error of
              Some e \<Rightarrow> (s1, Some e)
            | None \<Rightarrow>
                (fold called [RecorderRecord, MicStream, MicStreamOn ''error'', Pipe] s1, None)))"

text \<open>The callback of \<^verbatim>\<open>app.listen\<close>, with the \<^verbatim>\<open>catch\<close> on the promise.\<close>

definition on_listening ::
  "string \<Rightarrow> string option \<Rightarrow> js_error option \<Rightarrow> server \<Rightarrow> server" where
  "on_listening port apiKey connect_error s =
     (let s1 = called (ConsoleLog (''Server listening on port '' @ port)) s
      in case startStreaming apiKey connect_error s1 of
           (s2, Some err) \<Rightarrow> called (ConsoleError ''Error starting streaming:'' (Some err)) s2
         | (s2, None) \<Rightarrow> s2)"

text \<open>Two server states with the same hub: registry, timers and streams agree; only the log may differ.\<close>

definition same_hub :: "server \<Rightarrow> server \<Rightarrow> bool" where
  "same_hub s t \<longleftrightarrow>
     sseClients s = sseClients t \<and> timers s = timers t \<and> next_timer s = next_timer t \<and>
     writable s = writable t \<and> received s = received t"

section \<open>The reconciler: proofs\<close>

lemma partial_idle:
  "partialEl st = None \<Longrightarrow> data \<noteq> JNull \<Longrightarrow>
   property ''type'' data = Some (JStr ''partial'') \<Longrightarrow>
   dom_text (property ''text'' data) = Inr t \<Longrightarrow>
   onmessage (Parsed data) st =
     Inr (st\<lparr>elements := elements st @ [\<lparr>className = ''partial'', textContent = t\<rparr>],
             transcripts := removeAll (length (elements st)) (transcripts st) @ [length (elements st)],
             partialEl := Some (length (elements st))\<rparr>)"
  by (simp add: onmessage_def try_block_def createElement_def set_className_def
      assign_textContent_def set_textContent_def appendChild_def)

lemma partial_in_progress:
  "partialEl st = Some el \<Longrightarrow> data \<noteq> JNull \<Longrightarrow>
   property ''type'' data = Some (JStr ''partial'') \<Longrightarrow>
   dom_text (property ''text'' data) = Inr t \<Longrightarrow>
   onmessage (Parsed data) st =
     Inr (st\<lparr>elements := (elements st)[el := (elements st ! el)\<lparr>textContent := t\<rparr>]\<rparr>)"
  by (simp add: onmessage_def try_block_def assign_textContent_def set_textContent_def)

lemma final_idle:
  "partialEl st = None \<Longrightarrow> data \<noteq> JNull \<Longrightarrow>
   property ''type'' data = Some (JStr ''final'') \<Longrightarrow>
   dom_text (property ''text'' data) = Inr t \<Longrightarrow>
   onmessage (Parsed data) st =
     Inr (st\<lparr>elements := elements st @ [\<lparr>className = ''final'', textContent = t\<rparr>],
             transcripts := removeAll (length (elements st)) (transcripts st) @ [length (elements st)]\<rparr>)"
  by (simp add: onmessage_def try_block_def createElement_def set_className_def
      assign_textContent_def set_textContent_def appendChild_def)

lemma final_in_progress:
  "partialEl st = Some el \<Longrightarrow> data \<noteq> JNull \<Longrightarrow>
   property ''type'' data = Some (JStr ''final'') \<Longrightarrow>
   dom_text (property ''text'' data) = Inr t \<Longrightarrow>
   onmessage (Parsed data) st =
     Inr (st\<lparr>elements := elements st @ [\<lparr>className = ''final'', textContent = t\<rparr>],
             transcripts :=
               removeAll el (removeAll (length (elements st)) (transcripts st) @ [length (elements st)]),
             partialEl := None\<rparr>)"
  by (simp add: onmessage_def try_block_def createElement_def set_className_def
      assign_textContent_def set_textContent_def appendChild_def remove_el_def)

text \<open>The same messages with a text whose conversion throws.\<close>

lemma partial_idle_throws:
  "partialEl st = None \<Longrightarrow> data \<noteq> JNull \<Longrightarrow>
   property ''type'' data = Some (JStr ''partial'') \<Longrightarrow>
   dom_text (property ''text'' data) = Inl e \<Longrightarrow>
   onmessage (Parsed data) st =
     Inr (st\<lparr>elements := elements st @ [\<lparr>className = ''partial'', textContent = []\<rparr>],
             transcripts := removeAll (length (elements st)) (transcripts st) @ [length (elements st)],
             partialEl := Some (length (elements st)),
             console := console st @ [(''Failed to parse SSE data'', e)]\<rparr>)"
  by (simp add: onmessage_def try_block_def createElement_def set_className_def
      assign_textContent_def appendChild_def)

lemma partial_in_progress_throws:
  "partialEl st = Some el \<Longrightarrow> data \<noteq> JNull \<Longrightarrow>
   property ''type'' data = Some (JStr ''partial'') \<Longrightarrow>
   dom_text (property ''text'' data) = Inl e \<Longrightarrow>
   onmessage (Parsed data) st =
     Inr (st\<lparr>console := console st @ [(''Failed to parse SSE data'', e)]\<rparr>)"
  by (simp add: onmessage_def try_block_def assign_textContent_def)

lemma final_throws:
  "data \<noteq> JNull \<Longrightarrow> property ''type'' data = Some (JStr ''final'') \<Longrightarrow>
   dom_text (property ''text'' data) = Inl e \<Longrightarrow>
   onmessage (Parsed data) st =
     Inr (st\<lparr>elements := elements st @ [\<lparr>className = ''final'', textContent = []\<rparr>],
             console := console st @ [(''Failed to parse SSE data'', e)]\<rparr>)"
  by (simp add: onmessage_def try_block_def createElement_def set_className_def
      assign_textContent_def)

lemma text_with_own_toString:
  "onmessage
     (Parsed (JObj [(''type'', JStr ''partial''), (''text'', JObj [(''toString'', JNum ''1'')])]))
     init_client =
   Inr \<lparr>elements = [\<lparr>className = ''partial'', textContent = []\<rparr>], transcripts = [0],
        partialEl = Some 0, console = [(''Failed to parse SSE data'', TypeError)]\<rparr>"
  by (simp add: onmessage_def try_block_def createElement_def set_className_def
      assign_textContent_def appendChild_def dom_text_def init_client_def)

lemma array_text_examples:
  "to_string (JArr [JNum ''1'', JNull, JArr [JStr ''a'', JBool True]]) = Inr ''1,,a,true''"
  "to_string (JArr [JStr ''a'', JObj [(''toString'', JNull)], JObj []]) = Inl TypeError"
  by (simp_all add: collect_def)

lemma payload_partial:
  "payload (Partial t) \<noteq> JNull"
  "property ''type'' (payload (Partial t)) = Some (JStr ''partial'')"
  "dom_text (property ''text'' (payload (Partial t))) = Inr t"
  by (simp_all add: dom_text_def)

lemma payload_final:
  "payload (Final t) \<noteq> JNull"
  "property ''type'' (payload (Final t)) = Some (JStr ''final'')"
  "dom_text (property ''text'' (payload (Final t))) = Inr t"
  by (simp_all add: dom_text_def)

lemma wf_fresh: "wf_client st \<Longrightarrow> removeAll (length (elements st)) (transcripts st) = transcripts st"
  by (auto simp: wf_client_def)

lemma wf_bound: "wf_client st \<Longrightarrow> i \<in> set (transcripts st) \<Longrightarrow> i < length (elements st)"
  by (simp add: wf_client_def)

lemma map_old_elements:
  "\<forall>i \<in> set is. i < length xs \<Longrightarrow> map (\<lambda>i. f ((xs @ ys) ! i)) is = map (\<lambda>i. f (xs ! i)) is"
  by (simp add: nth_append)

lemma row_idle_partial_data:
  assumes "wf_client st" "partialEl st = None"
    and "data \<noteq> JNull" "property ''type'' data = Some (JStr ''partial'')"
    and "dom_text (property ''text'' data) = Inr t"
  shows "\<exists>st'. onmessage (Parsed data) st = Inr st' \<and> wf_client st' \<and>
           view st' = spec_step (view st) (Partial t) \<and>
           partialEl st' = Some (length (elements st)) \<and>
           length (elements st') = Suc (length (elements st))"
proof -
  let ?n = "length (elements st)"
  let ?st' = "st\<lparr>elements := elements st @ [\<lparr>className = ''partial'', textContent = t\<rparr>],
             transcripts := transcripts st @ [?n], partialEl := Some ?n\<rparr>"
  have run: "onmessage (Parsed data) st = Inr ?st'"
    using partial_idle [OF assms(2-5)] wf_fresh [OF assms(1)] by simp
  have old: "\<forall>i \<in> set (transcripts st). i < ?n"
    using assms(1) by (simp add: wf_client_def)
  have nopart: "\<forall>i \<in> set (transcripts st). className (elements st ! i) \<noteq> ''partial''"
    using assms by (simp add: wf_client_def)
  have wf: "wf_client ?st'"
    using assms old nopart by (auto simp: wf_client_def nth_append)
  have "map (\<lambda>i. item_of ((elements st @ [\<lparr>className = ''partial'', textContent = t\<rparr>]) ! i)) (transcripts st)
        = map (\<lambda>i. item_of (elements st ! i)) (transcripts st)"
    using old by (rule map_old_elements)
  moreover have "item_of \<lparr>className = ''partial'', textContent = t\<rparr> = Provisional t"
    by (simp add: item_of_def)
  ultimately have disp: "display ?st' = display st @ [Provisional t]"
    by (simp add: display_def)
  have "view ?st' = spec_step (view st) (Partial t)"
    using assms(2) disp by (simp add: view_def reconciler_state_def)
  with run wf show ?thesis by simp
qed

lemma row_idle_final_data:
  assumes "wf_client st" "partialEl st = None"
    and "data \<noteq> JNull" "property ''type'' data = Some (JStr ''final'')"
    and "dom_text (property ''text'' data) = Inr t"
  shows "\<exists>st'. onmessage (Parsed data) st = Inr st' \<and> wf_client st' \<and>
           view st' = spec_step (view st) (Final t) \<and>
           partialEl st' = None \<and>
           length (elements st') = Suc (length (elements st))"
proof -
  let ?n = "length (elements st)"
  let ?st' = "st\<lparr>elements := elements st @ [\<lparr>className = ''final'', textContent = t\<rparr>],
             transcripts := transcripts st @ [?n]\<rparr>"
  have run: "onmessage (Parsed data) st = Inr ?st'"
    using final_idle [OF assms(2-5)] wf_fresh [OF assms(1)] by simp
  have old: "\<forall>i \<in> set (transcripts st). i < ?n"
    using assms(1) by (simp add: wf_client_def)
  have nopart: "\<forall>i \<in> set (transcripts st). className (elements st ! i) \<noteq> ''partial''"
    using assms by (simp add: wf_client_def)
  have wf: "wf_client ?st'"
    using assms old nopart by (auto simp: wf_client_def nth_append)
  have "map (\<lambda>i. item_of ((elements st @ [\<lparr>className = ''final'', textContent = t\<rparr>]) ! i)) (transcripts st)
        = map (\<lambda>i. item_of (elements st ! i)) (transcripts st)"
    using old by (rule map_old_elements)
  moreover have "item_of \<lparr>className = ''final'', textContent = t\<rparr> = Permanent t"
    by (simp add: item_of_def)
  ultimately have disp: "display ?st' = display st @ [Permanent t]"
    by (simp add: display_def)
  have "view ?st' = spec_step (view st) (Final t)"
    using assms(2) disp by (simp add: view_def reconciler_state_def)
  with run wf assms(2) show ?thesis by simp
qed

lemma row_in_progress_partial_data:
  assumes "wf_client st" "partialEl st = Some el"
    and "data \<noteq> JNull" "property ''type'' data = Some (JStr ''partial'')"
    and "dom_text (property ''text'' data) = Inr t"
  shows "\<exists>st'. onmessage (Parsed data) st = Inr st' \<and> wf_client st' \<and>
           view st' = spec_step (view st) (Partial t) \<and>
           partialEl st' = Some el \<and> transcripts st' = transcripts st \<and>
           length (elements st') = length (elements st)"
proof -
  let ?st' = "st\<lparr>elements := (elements st)[el := (elements st ! el)\<lparr>textContent := t\<rparr>]\<rparr>"
  have run: "onmessage (Parsed data) st = Inr ?st'"
    using partial_in_progress [OF assms(2-5)] .
  have el: "el \<in> set (transcripts st)" "className (elements st ! el) = ''partial''"
    and others: "\<forall>i \<in> set (transcripts st). i \<noteq> el \<longrightarrow> className (elements st ! i) \<noteq> ''partial''"
    and old: "\<forall>i \<in> set (transcripts st). i < length (elements st)"
    using assms by (simp_all add: wf_client_def)
  have len: "el < length (elements st)" using el old by blast
  have wf: "wf_client ?st'"
    using assms el others old len by (auto simp: wf_client_def nth_list_update)
  have "\<forall>i \<in> set (transcripts st).
          item_of (elements ?st' ! i) = retext t (item_of (elements st ! i))"
    using el others old len by (auto simp: item_of_def nth_list_update)
  then have disp: "display ?st' = map (retext t) (display st)"
    by (simp add: display_def)
  have "view ?st' = spec_step (view st) (Partial t)"
    using assms(2) disp len by (simp add: view_def reconciler_state_def)
  with run wf assms(2) show ?thesis by simp
qed

lemma row_in_progress_final_data:
  assumes "wf_client st" "partialEl st = Some el"
    and "data \<noteq> JNull" "property ''type'' data = Some (JStr ''final'')"
    and "dom_text (property ''text'' data) = Inr t"
  shows "\<exists>st'. onmessage (Parsed data) st = Inr st' \<and> wf_client st' \<and>
           view st' = spec_step (view st) (Final t) \<and>
           partialEl st' = None \<and> el \<notin> set (transcripts st') \<and>
           length (elements st') = Suc (length (elements st))"
proof -
  let ?n = "length (elements st)"
  let ?st' = "st\<lparr>elements := elements st @ [\<lparr>className = ''final'', textContent = t\<rparr>],
             transcripts := removeAll el (transcripts st) @ [?n], partialEl := None\<rparr>"
  have el: "el \<in> set (transcripts st)" "className (elements st ! el) = ''partial''"
    and others: "\<forall>i \<in> set (transcripts st). i \<noteq> el \<longrightarrow> className (elements st ! i) \<noteq> ''partial''"
    and old: "\<forall>i \<in> set (transcripts st). i < ?n"
    and dist: "distinct (transcripts st)"
    using assms by (simp_all add: wf_client_def)
  have len: "el < ?n" using el old by blast
  have run: "onmessage (Parsed data) st = Inr ?st'"
    using final_in_progress [OF assms(2-5)] wf_fresh [OF assms(1)] len by simp
  have wf: "wf_client ?st'"
    using el others old dist len by (auto simp: wf_client_def nth_append distinct_removeAll)
  have "removeAll el (transcripts st) = filter (\<lambda>i. \<not> is_provisional (item_of (elements st ! i))) (transcripts st)"
    unfolding removeAll_filter_not_eq
    by (rule filter_cong) (use el others in \<open>auto simp: item_of_def\<close>)
  then have keep: "map (\<lambda>i. item_of (elements st ! i)) (removeAll el (transcripts st))
                 = filter (\<lambda>x. \<not> is_provisional x) (display st)"
    by (simp add: display_def filter_map comp_def)
  have "\<forall>i \<in> set (removeAll el (transcripts st)). i < ?n" using old by simp
  then have "map (\<lambda>i. item_of ((elements st @ [\<lparr>className = ''final'', textContent = t\<rparr>]) ! i)) (removeAll el (transcripts st))
        = map (\<lambda>i. item_of (elements st ! i)) (removeAll el (transcripts st))"
    by (rule map_old_elements)
  moreover have "item_of \<lparr>className = ''final'', textContent = t\<rparr> = Permanent t"
    by (simp add: item_of_def)
  ultimately have disp: "display ?st' = filter (\<lambda>x. \<not> is_provisional x) (display st) @ [Permanent t]"
    using keep by (simp add: display_def)
  have "view ?st' = spec_step (view st) (Final t)"
    using assms(2) disp by (simp add: view_def reconciler_state_def)
  with run wf len show ?thesis by simp
qed

lemma row_idle_partial:
  assumes "wf_client st" "partialEl st = None"
  shows "\<exists>st'. onmessage (Parsed (payload (Partial t))) st = Inr st' \<and> wf_client st' \<and>
           view st' = spec_step (view st) (Partial t) \<and>
           partialEl st' = Some (length (elements st)) \<and>
           length (elements st') = Suc (length (elements st))"
  by (rule row_idle_partial_data [OF assms payload_partial])

lemma row_idle_final:
  assumes "wf_client st" "partialEl st = None"
  shows "\<exists>st'. onmessage (Parsed (payload (Final t))) st = Inr st' \<and> wf_client st' \<and>
           view st' = spec_step (view st) (Final t) \<and>
           partialEl st' = None \<and>
           length (elements st') = Suc (length (elements st))"
  by (rule row_idle_final_data [OF assms payload_final])

lemma row_in_progress_partial:
  assumes "wf_client st" "partialEl st = Some el"
  shows "\<exists>st'. onmessage (Parsed (payload (Partial t))) st = Inr st' \<and> wf_client st' \<and>
           view st' = spec_step (view st) (Partial t) \<and>
           partialEl st' = Some el \<and> transcripts st' = transcripts st \<and>
           length (elements st') = length (elements st)"
  by (rule row_in_progress_partial_data [OF assms payload_partial])

lemma row_in_progress_final:
  assumes "wf_client st" "partialEl st = Some el"
  shows "\<exists>st'. onmessage (Parsed (payload (Final t))) st = Inr st' \<and> wf_client st' \<and>
           view st' = spec_step (view st) (Final t) \<and>
           partialEl st' = None \<and> el \<notin> set (transcripts st') \<and>
           length (elements st') = Suc (length (elements st))"
  by (rule row_in_progress_final_data [OF assms payload_final])

text \<open>
  Well-formedness is kept by the handler on every message, malformed or not, with any
  \<^verbatim>\<open>type\<close> and any \<^verbatim>\<open>text\<close>: the pages reached from the initial one are well formed.
\<close>

lemma wf_console: "wf_client (st\<lparr>console := c\<rparr>) = wf_client st"
  by (cases "partialEl st") (simp_all add: wf_client_def)

lemma wf_new_element: "wf_client st \<Longrightarrow> wf_client (st\<lparr>elements := elements st @ [e]\<rparr>)"
  by (cases "partialEl st") (auto simp: wf_client_def nth_append)

lemma onmessage_preserves_wf:
  assumes wf: "wf_client st" and run: "onmessage p st = Inr st'"
  shows "wf_client st'"
proof (cases p)
  case NotJSON
  with run wf show ?thesis by (auto simp: onmessage_def try_block_def wf_console)
next
  case (Parsed data)
  show ?thesis
  proof (cases "data = JNull")
    case True
    with Parsed run wf show ?thesis by (auto simp: onmessage_def try_block_def wf_console)
  next
    case nn: False
    show ?thesis
    proof (cases "property ''type'' data = Some (JStr ''partial'')")
      case p: True
      show ?thesis
      proof (cases "partialEl st")
        case None
        show ?thesis
        proof (cases "dom_text (property ''text'' data)")
          case (Inr t)
          from row_idle_partial_data [OF wf None nn p Inr] run Parsed show ?thesis by auto
        next
          case (Inl e)
          from row_idle_partial_data [OF wf None payload_partial [of "[]"]]
          have "wf_client (st\<lparr>elements := elements st @ [\<lparr>className = ''partial'', textContent = []\<rparr>],
             transcripts := removeAll (length (elements st)) (transcripts st) @ [length (elements st)],
             partialEl := Some (length (elements st))\<rparr>)"
            using partial_idle [OF None payload_partial [of "[]"]] by auto
          then show ?thesis
            using partial_idle_throws [OF None nn p Inl] run Parsed
            by (auto simp: wf_console)
        qed
      next
        case (Some el)
        show ?thesis
        proof (cases "dom_text (property ''text'' data)")
          case (Inr t)
          from row_in_progress_partial_data [OF wf Some nn p Inr] run Parsed show ?thesis by auto
        next
          case (Inl e)
          from partial_in_progress_throws [OF Some nn p Inl] run Parsed wf show ?thesis
            by (auto simp: wf_console)
        qed
      qed
    next
      case np: False
      show ?thesis
      proof (cases "property ''type'' data = Some (JStr ''final'')")
        case f: True
        show ?thesis
        proof (cases "dom_text (property ''text'' data)")
          case (Inl e)
          from final_throws [OF nn f Inl, of st] run Parsed wf_new_element [OF wf] show ?thesis
            by (auto simp: wf_console)
        next
          case (Inr t)
          show ?thesis
          proof (cases "partialEl st")
            case None
            from row_idle_final_data [OF wf None nn f Inr] run Parsed show ?thesis by auto
          next
            case (Some el)
            from row_in_progress_final_data [OF wf Some nn f Inr] run Parsed show ?thesis by auto
          qed
        qed
      next
        case False
        with nn np Parsed run wf show ?thesis by (simp add: onmessage_def try_block_def)
      qed
    qed
  qed
qed

lemma onmessage_returns: "\<exists>st'. onmessage p st = Inr st'"
  by (simp add: onmessage_def split: prod.split option.split)

lemma run_returns_wf: "wf_client st \<Longrightarrow> \<exists>st'. run ps st = Inr st' \<and> wf_client st'"
proof (induction ps arbitrary: st)
  case Nil
  then show ?case by simp
next
  case (Cons p ps)
  from onmessage_returns [of p st] obtain st1 where s1: "onmessage p st = Inr st1" by blast
  from onmessage_preserves_wf [OF Cons.prems s1] have "wf_client st1" .
  from Cons.IH [OF this] s1 show ?case by simp
qed

lemma wf_init: "wf_client init_client"
  by (simp add: wf_client_def init_client_def)

lemma view_init: "view init_client = ([], Idle)"
  by (simp add: view_def display_def reconciler_state_def init_client_def)

lemma run_append:
  "run (ps @ qs) st = (case run ps st of Inl e \<Rightarrow> Inl e | Inr st' \<Rightarrow> run qs st')"
  by (induction ps arbitrary: st) (auto split: sum.splits)

lemma filter_retext: "filter (\<lambda>x. \<not> is_provisional x) (map (retext t) d) = filter (\<lambda>x. \<not> is_provisional x) d"
proof (induction d)
  case Nil
  show ?case by simp
next
  case (Cons x d)
  then show ?case by (cases x) simp_all
qed

lemma idle_no_provisional:
  assumes "wf_client st" "partialEl st = None"
  shows "filter (\<lambda>x. \<not> is_provisional x) (display st) = display st"
proof -
  have "\<forall>i \<in> set (transcripts st). \<not> is_provisional (item_of (elements st ! i))"
    using assms by (auto simp: wf_client_def item_of_def)
  then show ?thesis by (simp add: display_def)
qed

lemma partial_keeps_permanent:
  assumes "wf_client st"
  shows "\<exists>st'. onmessage (Parsed (payload (Partial t))) st = Inr st' \<and> wf_client st' \<and>
           filter (\<lambda>x. \<not> is_provisional x) (display st') = filter (\<lambda>x. \<not> is_provisional x) (display st)"
proof (cases "partialEl st")
  case None
  from row_idle_partial [OF assms None, of t] obtain st' where
    "onmessage (Parsed (payload (Partial t))) st = Inr st'" "wf_client st'"
    "view st' = spec_step (view st) (Partial t)" by blast
  moreover from this None have "display st' = display st @ [Provisional t]"
    by (simp add: view_def reconciler_state_def)
  ultimately show ?thesis by auto
next
  case (Some el)
  from row_in_progress_partial [OF assms Some, of t] obtain st' where
    "onmessage (Parsed (payload (Partial t))) st = Inr st'" "wf_client st'"
    "view st' = spec_step (view st) (Partial t)" by blast
  moreover from this Some have "display st' = map (retext t) (display st)"
    by (simp add: view_def reconciler_state_def)
  ultimately show ?thesis by (auto simp: filter_retext)
qed

lemma partials_keep_permanent:
  "wf_client st \<Longrightarrow>
   \<exists>st'. run (map (\<lambda>t. Parsed (payload (Partial t))) ts) st = Inr st' \<and> wf_client st' \<and>
     filter (\<lambda>x. \<not> is_provisional x) (display st') = filter (\<lambda>x. \<not> is_provisional x) (display st)"
proof (induction ts arbitrary: st)
  case Nil
  then show ?case by simp
next
  case (Cons t ts)
  from partial_keeps_permanent [OF Cons.prems, of t] obtain st1 where
    s1: "onmessage (Parsed (payload (Partial t))) st = Inr st1" "wf_client st1"
    "filter (\<lambda>x. \<not> is_provisional x) (display st1) = filter (\<lambda>x. \<not> is_provisional x) (display st)"
    by blast
  from Cons.IH [OF s1(2)] obtain st' where
    "run (map (\<lambda>t. Parsed (payload (Partial t))) ts) st1 = Inr st'" "wf_client st'"
    "filter (\<lambda>x. \<not> is_provisional x) (display st') = filter (\<lambda>x. \<not> is_provisional x) (display st1)"
    by blast
  with s1 show ?case by simp
qed

lemma final_closes:
  assumes "wf_client st"
  shows "\<exists>st'. onmessage (Parsed (payload (Final F))) st = Inr st' \<and> wf_client st' \<and>
           partialEl st' = None \<and>
           display st' = filter (\<lambda>x. \<not> is_provisional x) (display st) @ [Permanent F]"
proof (cases "partialEl st")
  case None
  from row_idle_final [OF assms None, of F] obtain st' where
    "onmessage (Parsed (payload (Final F))) st = Inr st'" "wf_client st'"
    "view st' = spec_step (view st) (Final F)" "partialEl st' = None" by blast
  moreover from this None have "display st' = display st @ [Permanent F]"
    by (simp add: view_def reconciler_state_def)
  ultimately show ?thesis using idle_no_provisional [OF assms None] by auto
next
  case (Some el)
  from row_in_progress_final [OF assms Some, of F] obtain st' where
    "onmessage (Parsed (payload (Final F))) st = Inr st'" "wf_client st'"
    "view st' = spec_step (view st) (Final F)" "partialEl st' = None" by blast
  moreover from this Some have "display st' = filter (\<lambda>x. \<not> is_provisional x) (display st) @ [Permanent F]"
    by (simp add: view_def reconciler_state_def)
  ultimately show ?thesis by auto
qed

lemma utterance_general:
  assumes "wf_client st"
  shows "\<exists>st'. run (map (\<lambda>t. Parsed (payload (Partial t))) ts @ [Parsed (payload (Final F))]) st = Inr st' \<and>
           wf_client st' \<and> partialEl st' = None \<and>
           display st' = filter (\<lambda>x. \<not> is_provisional x) (display st) @ [Permanent F]"
proof -
  from partials_keep_permanent [OF assms, of ts] obtain st1 where
    s1: "run (map (\<lambda>t. Parsed (payload (Partial t))) ts) st = Inr st1" "wf_client st1"
    "filter (\<lambda>x. \<not> is_provisional x) (display st1) = filter (\<lambda>x. \<not> is_provisional x) (display st)"
    by blast
  from final_closes [OF s1(2), of F] obtain st' where
    "onmessage (Parsed (payload (Final F))) st1 = Inr st'" "wf_client st'" "partialEl st' = None"
    "display st' = filter (\<lambda>x. \<not> is_provisional x) (display st1) @ [Permanent F]" by blast
  with s1 show ?thesis by (simp add: run_append)
qed

text \<open>
  Claim C2. The client reconciler is the four-row state machine, started in \<open>Idle\<close>.
  The initial page is well formed and is viewed as no lines and \<open>Idle\<close>. From every
  well-formed page, the handler returns normally on a partial or final message, the
  page stays well formed, and its view (displayed lines and reconciler state) is the
  one the specification's step gives. A partial message in \<open>Idle\<close> creates one
  element, which \<open>partialEl\<close> then refers to; a partial message in progress creates
  none and keeps \<open>partialEl\<close> on the same element; a final message creates one
  element and leaves \<open>partialEl\<close> empty.
\<close>

theorem reconciler_state_machine:
  "wf_client init_client \<and> view init_client = ([], Idle) \<and>
   (wf_client st \<longrightarrow>
     (\<exists>st'. onmessage (Parsed (payload e)) st = Inr st' \<and> wf_client st' \<and>
        view st' = spec_step (view st) e \<and>
        partialEl st' =
          (case e of
             Partial t \<Rightarrow> (case partialEl st of None \<Rightarrow> Some (length (elements st)) | Some el \<Rightarrow> Some el)
           | Final t \<Rightarrow> None) \<and>
        length (elements st') =
          (case e of
             Partial t \<Rightarrow> (case partialEl st of None \<Rightarrow> Suc (length (elements st)) | Some el \<Rightarrow> length (elements st))
           | Final t \<Rightarrow> Suc (length (elements st)))))"
proof (intro conjI impI)
  show "wf_client init_client" by (rule wf_init)
  show "view init_client = ([], Idle)" by (rule view_init)
next
  assume wf: "wf_client st"
  show "\<exists>st'. onmessage (Parsed (payload e)) st = Inr st' \<and> wf_client st' \<and>
        view st' = spec_step (view st) e \<and>
        partialEl st' =
          (case e of
             Partial t \<Rightarrow> (case partialEl st of None \<Rightarrow> Some (length (elements st)) | Some el \<Rightarrow> Some el)
           | Final t \<Rightarrow> None) \<and>
        length (elements st') =
          (case e of
             Partial t \<Rightarrow> (case partialEl st of None \<Rightarrow> Suc (length (elements st)) | Some el \<Rightarrow> length (elements st))
           | Final t \<Rightarrow> Suc (length (elements st)))"
  proof (cases e)
    case (Partial t)
    show ?thesis
    proof (cases "partialEl st")
      case None
      with row_idle_partial [OF wf None, of t] Partial show ?thesis by auto
    next
      case (Some el)
      with row_in_progress_partial [OF wf Some, of t] Partial show ?thesis by auto
    qed
  next
    case (Final t)
    show ?thesis
    proof (cases "partialEl st")
      case None
      with row_idle_final [OF wf None, of t] Final show ?thesis by auto
    next
      case (Some el)
      with row_in_progress_final [OF wf Some, of t] Final show ?thesis by auto
    qed
  qed
qed

text \<open>Claim C2 at the initial page and the message \<open>Partial ''hel''\<close>.\<close>

theorem reconciler_state_machine_witness:
  "wf_client init_client \<and>
   (\<exists>st'. onmessage (Parsed (payload (Partial ''hel''))) init_client = Inr st' \<and>
      view st' = ([Provisional ''hel''], InProgress ''hel'') \<and> partialEl st' = Some 0)"
  using reconciler_state_machine [of init_client "Partial ''hel''"]
  by (auto simp: init_client_def)

text \<open>
  Claim C3. After any number of partial messages followed by one \<open>Final F\<close>, starting
  from the initial page, the handler has returned normally each time, the reconciler is
  \<open>Idle\<close>, and the page shows exactly one line: the permanent line \<open>F\<close>; no line in
  progress is left.
\<close>

theorem utterance_ends_idle:
  "\<exists>st'. run (map (\<lambda>t. Parsed (payload (Partial t))) ts @ [Parsed (payload (Final F))]) init_client = Inr st' \<and>
     reconciler_state st' = Idle \<and> partialEl st' = None \<and> display st' = [Permanent F]"
proof -
  from utterance_general [OF wf_init, of ts F] obtain st' where
    "run (map (\<lambda>t. Parsed (payload (Partial t))) ts @ [Parsed (payload (Final F))]) init_client = Inr st'"
    "partialEl st' = None"
    "display st' = filter (\<lambda>x. \<not> is_provisional x) (display init_client) @ [Permanent F]" by blast
  moreover have "display init_client = []" by (simp add: display_def init_client_def)
  ultimately show ?thesis by (auto simp: reconciler_state_def)
qed

text \<open>Claim C3 on the messages \<open>Partial ''hel''\<close>, \<open>Partial ''hello''\<close>, \<open>Final ''hello world''\<close>.\<close>

theorem utterance_ends_idle_witness:
  "\<exists>st'. run [Parsed (payload (Partial ''hel'')), Parsed (payload (Partial ''hello'')),
              Parsed (payload (Final ''hello world''))] init_client = Inr st' \<and>
     reconciler_state st' = Idle \<and> display st' = [Permanent ''hello world'']"
  using utterance_ends_idle [of "[''hel'', ''hello'']" "''hello world''"]
  by auto

text \<open>
  Claim C5, amended. A message that is not JSON leaves elements, children and
  \<open>partialEl\<close> as they were, the handler returns normally, one error is logged, and
  the following messages are handled from that state; the same holds for the JSON
  value \<^verbatim>\<open>null\<close>, whose property read throws. A message that is JSON, is not
  \<^verbatim>\<open>null\<close> and has no \<^verbatim>\<open>type\<close> leaves the whole state as it was, log included: it
  is dropped without a warning, and the following messages are handled from the same
  state.
\<close>

theorem malformed_message_dropped:
  "onmessage NotJSON st = Inr (st\<lparr>console := console st @ [(''Failed to parse SSE data'', SyntaxError)]\<rparr>) \<and>
   onmessage (Parsed JNull) st = Inr (st\<lparr>console := console st @ [(''Failed to parse SSE data'', TypeError)]\<rparr>) \<and>
   (data \<noteq> JNull \<and> property ''type'' data = None \<longrightarrow> onmessage (Parsed data) st = Inr st) \<and>
   run (NotJSON # ps) st = run ps (st\<lparr>console := console st @ [(''Failed to parse SSE data'', SyntaxError)]\<rparr>) \<and>
   (data \<noteq> JNull \<and> property ''type'' data = None \<longrightarrow> run (Parsed data # ps) st = run ps st)"
  by (simp add: onmessage_def try_block_def)

text \<open>Claim C5, amended, at the empty array followed by a final message.\<close>

theorem malformed_message_dropped_witness:
  "JArr [] \<noteq> JNull \<and> property ''type'' (JArr []) = None \<and>
   onmessage (Parsed (JArr [])) init_client = Inr init_client \<and>
   run [Parsed (JArr []), Parsed (payload (Final ''ok''))] init_client = run [Parsed (payload (Final ''ok''))] init_client"
  using malformed_message_dropped [of init_client "JArr []" "[Parsed (payload (Final ''ok''))]"]
  by simp

text \<open>
  Claim C5 as stated fails: the message \<^verbatim>\<open>{"text":"hello"}\<close> has no \<^verbatim>\<open>type\<close>, and
  the handler returns the initial page unchanged, with an empty log.
\<close>

theorem missing_type_not_logged:
  "property ''type'' (JObj [(''text'', JStr ''hello'')]) = None \<and>
   onmessage (Parsed (JObj [(''text'', JStr ''hello'')])) init_client = Inr init_client \<and>
   console init_client = []"
  by (simp add: onmessage_def try_block_def init_client_def)

section \<open>The hub: proofs\<close>

lemma writes_append: "writes (xs @ ys) = writes xs @ writes ys"
  by (induction xs rule: writes.induct) simp_all

lemma res_write_frame:
  "sseClients (fst (res_write res chunk s)) = sseClients s"
  "timers (fst (res_write res chunk s)) = timers s"
  "next_timer (fst (res_write res chunk s)) = next_timer s"
  "writable (fst (res_write res chunk s)) = writable s"
  "calls (fst (res_write res chunk s)) = calls s @ [ResWrite res chunk]"
  by (simp_all add: res_write_def called_def Let_def split: write_status.split)

lemma res_write_outcome:
  "snd (res_write res chunk s) = (case writable s res of Throwing e \<Rightarrow> Some e | _ \<Rightarrow> None)"
  by (simp add: res_write_def called_def Let_def split: write_status.split)

lemma res_write_received:
  "received (fst (res_write res chunk s)) x =
     (if x = res \<and> writable s res = Accepting then received s x @ [chunk] else received s x)"
  by (simp add: res_write_def called_def Let_def split: write_status.split)

lemma on_close_frame:
  "sseClients (on_close c s) = filter (\<lambda>client. client \<noteq> conn_res c) (sseClients s)"
  "timers (on_close c s) = removeAll (conn_keepAlive c) (timers s)"
  "next_timer (on_close c s) = next_timer s"
  "writable (on_close c s) = writable s"
  "received (on_close c s) = received s"
  "calls (on_close c s) = calls s @ [ClearInterval (conn_keepAlive c)]"
  by (simp_all add: on_close_def clearInterval_def called_def Let_def)

lemma fold_on_close_sseClients:
  "sseClients (fold on_close cs s) = filter (\<lambda>client. client \<notin> conn_res ` set cs) (sseClients s)"
proof (induction cs arbitrary: s)
  case Nil
  show ?case by simp
next
  case (Cons c cs)
  have "filter (\<lambda>client. client \<notin> conn_res ` set cs) (filter (\<lambda>client. client \<noteq> conn_res c) (sseClients s))
      = filter (\<lambda>client. client \<notin> conn_res ` set (c # cs)) (sseClients s)"
    unfolding filter_filter by (rule filter_cong) auto
  with Cons.IH [of "on_close c s"] show ?case by (simp add: on_close_frame(1))
qed

lemma fold_on_close_timers:
  "timers (fold on_close cs s) = filter (\<lambda>t. t \<notin> conn_keepAlive ` set cs) (timers s)"
proof (induction cs arbitrary: s)
  case Nil
  show ?case by simp
next
  case (Cons c cs)
  have "filter (\<lambda>t. t \<notin> conn_keepAlive ` set cs) (removeAll (conn_keepAlive c) (timers s))
      = filter (\<lambda>t. t \<notin> conn_keepAlive ` set (c # cs)) (timers s)"
    unfolding removeAll_filter_not_eq filter_filter by (rule filter_cong) auto
  with Cons.IH [of "on_close c s"] show ?case by (simp add: on_close_frame(2))
qed

lemma fold_on_close_frame:
  "next_timer (fold on_close cs s) = next_timer s"
  "writable (fold on_close cs s) = writable s"
  "received (fold on_close cs s) = received s"
  "calls (fold on_close cs s) = calls s @ map (\<lambda>c. ClearInterval (conn_keepAlive c)) cs"
  by (induction cs arbitrary: s) (simp_all add: on_close_frame)

lemma writes_clear: "writes (map (\<lambda>c. ClearInterval (conn_keepAlive c)) cs) = []"
  by (induction cs) simp_all

lemma forEach_write_no_closing:
  "forEach_write_closing (\<lambda>res. []) formatted rs s = forEach_write formatted rs s"
  by (induction rs arbitrary: s) (auto split: prod.splits option.splits)

lemma forEach_write_frame:
  "sseClients (fst (forEach_write formatted rs s)) = sseClients s \<and>
   timers (fst (forEach_write formatted rs s)) = timers s \<and>
   next_timer (fst (forEach_write formatted rs s)) = next_timer s \<and>
   writable (fst (forEach_write formatted rs s)) = writable s"
proof (induction rs arbitrary: s)
  case Nil
  show ?case by simp
next
  case (Cons r rs)
  obtain s1 out where w: "res_write r formatted s = (s1, out)" by (cases "res_write r formatted s")
  then have "sseClients s1 = sseClients s" "timers s1 = timers s" "next_timer s1 = next_timer s"
    "writable s1 = writable s"
    using res_write_frame [of r formatted s] by simp_all
  with w Cons.IH [of s1] show ?case by (cases out) simp_all
qed

lemma forEach_write_calls:
  "calls (fst (forEach_write formatted rs s)) =
     calls s @ map (\<lambda>r. ResWrite r formatted)
       (takeWhile (\<lambda>r. \<not> throws (writable s r)) rs @
        take 1 (dropWhile (\<lambda>r. \<not> throws (writable s r)) rs)) \<and>
   (snd (forEach_write formatted rs s) = None) = (\<forall>r \<in> set rs. \<not> throws (writable s r))"
proof (induction rs arbitrary: s)
  case Nil
  show ?case by simp
next
  case (Cons r rs)
  obtain s1 out where w: "res_write r formatted s = (s1, out)" by (cases "res_write r formatted s")
  then have c1: "calls s1 = calls s @ [ResWrite r formatted]" and w1: "writable s1 = writable s"
    using res_write_frame(4,5) [of r formatted s] by simp_all
  have o: "out = (case writable s r of Throwing e \<Rightarrow> Some e | _ \<Rightarrow> None)"
    using res_write_outcome [of r formatted s] w by simp
  show ?case
  proof (cases "throws (writable s r)")
    case True
    then obtain e where "writable s r = Throwing e" by (cases "writable s r") simp_all
    with o have "out = Some e" by simp
    then have "forEach_write formatted (r # rs) s = (s1, Some e)" using w by simp
    with True c1 show ?thesis by simp
  next
    case False
    then have "out = None" using o by (cases "writable s r") simp_all
    then have run: "forEach_write formatted (r # rs) s = forEach_write formatted rs s1"
      using w by simp
    from Cons.IH [of s1] False show ?thesis
      unfolding run w1 c1 by simp
  qed
qed

lemma forEach_write_closing_ok:
  assumes "\<forall>r \<in> set rs. \<not> throws (writable s r)"
  shows "snd (forEach_write_closing closing formatted rs s) = None \<and>
         writes (calls (fst (forEach_write_closing closing formatted rs s)))
           = writes (calls s) @ map (\<lambda>r. (r, formatted)) rs \<and>
         sseClients (fst (forEach_write_closing closing formatted rs s))
           = filter (\<lambda>client. client \<notin> conn_res ` set (concat (map closing rs))) (sseClients s) \<and>
         (\<forall>x. received (fst (forEach_write_closing closing formatted rs s)) x
           = received s x @ (if writable s x = Accepting then replicate (count_list rs x) formatted else []))"
  using assms
proof (induction rs arbitrary: s)
  case Nil
  show ?case by simp
next
  case (Cons r rs)
  obtain s1 out where w: "res_write r formatted s = (s1, out)" by (cases "res_write r formatted s")
  from Cons.prems have nt: "\<not> throws (writable s r)" by simp
  have out: "out = None"
    using w res_write_outcome [of r formatted s] nt by (cases "writable s r") simp_all
  let ?s2 = "fold on_close (closing r) s1"
  have s1: "sseClients s1 = sseClients s" "writable s1 = writable s"
    "calls s1 = calls s @ [ResWrite r formatted]"
    "\<And>x. received s1 x = (if x = r \<and> writable s r = Accepting then received s x @ [formatted] else received s x)"
    using w res_write_frame [of r formatted s] res_write_received [of r formatted s] by simp_all
  have s2: "sseClients ?s2 = filter (\<lambda>client. client \<notin> conn_res ` set (closing r)) (sseClients s)"
    "writable ?s2 = writable s" "received ?s2 = received s1"
    "writes (calls ?s2) = writes (calls s) @ [(r, formatted)]"
    using s1 by (simp_all add: fold_on_close_sseClients fold_on_close_frame writes_append writes_clear)
  from Cons.prems s2(2) have "\<forall>r \<in> set rs. \<not> throws (writable ?s2 r)" by simp
  note ih = Cons.IH [OF this]
  have run: "forEach_write_closing closing formatted (r # rs) s = forEach_write_closing closing formatted rs ?s2"
    using w out by simp
  have a: "snd (forEach_write_closing closing formatted (r # rs) s) = None"
    using ih run by simp
  have b: "writes (calls (fst (forEach_write_closing closing formatted (r # rs) s)))
           = writes (calls s) @ map (\<lambda>r. (r, formatted)) (r # rs)"
    using ih run s2(4) by simp
  have "filter (\<lambda>client. client \<notin> conn_res ` set (concat (map closing rs)))
          (filter (\<lambda>client. client \<notin> conn_res ` set (closing r)) (sseClients s))
        = filter (\<lambda>client. client \<notin> conn_res ` set (concat (map closing (r # rs)))) (sseClients s)"
    unfolding filter_filter by (rule filter_cong) auto
  then have c: "sseClients (fst (forEach_write_closing closing formatted (r # rs) s))
           = filter (\<lambda>client. client \<notin> conn_res ` set (concat (map closing (r # rs)))) (sseClients s)"
    using ih run s2(1) by simp
  have d: "received (fst (forEach_write_closing closing formatted (r # rs) s)) x
           = received s x @ (if writable s x = Accepting then replicate (count_list (r # rs) x) formatted else [])" for x
  proof -
    have "received (fst (forEach_write_closing closing formatted (r # rs) s)) x
        = received s1 x @ (if writable s x = Accepting then replicate (count_list rs x) formatted else [])"
      using ih run s2(2,3) by simp
    then show ?thesis using s1(4) [of x] by (simp add: replicate_append_same)
  qed
  from a b c d show ?case by blast
qed

lemma forEach_write_append:
  "forEach_write formatted (pre @ rest) s =
     (case forEach_write formatted pre s of
        (s1, Some e) \<Rightarrow> (s1, Some e)
      | (s1, None) \<Rightarrow> forEach_write formatted rest s1)"
  by (induction pre arbitrary: s) (simp_all split: prod.splits option.splits)

lemma forEach_write_ok:
  assumes "\<forall>r \<in> set rs. \<not> throws (writable s r)"
  shows "snd (forEach_write formatted rs s) = None"
    and "writes (calls (fst (forEach_write formatted rs s))) = writes (calls s) @ map (\<lambda>r. (r, formatted)) rs"
    and "received (fst (forEach_write formatted rs s)) x
           = received s x @ (if writable s x = Accepting then replicate (count_list rs x) formatted else [])"
  using forEach_write_closing_ok [OF assms, of "\<lambda>res. []" formatted]
  by (simp_all add: forEach_write_no_closing)

lemma forEach_write_throw:
  assumes pre: "\<forall>r \<in> set pre. \<not> throws (writable s r)" and res: "writable s res = Throwing e"
  shows "snd (forEach_write formatted (pre @ res # post) s) = Some e"
    and "writes (calls (fst (forEach_write formatted (pre @ res # post) s)))
           = writes (calls s) @ map (\<lambda>r. (r, formatted)) (pre @ [res])"
    and "x \<notin> set pre \<Longrightarrow> received (fst (forEach_write formatted (pre @ res # post) s)) x = received s x"
proof -
  obtain s1 out where p: "forEach_write formatted pre s = (s1, out)"
    by (cases "forEach_write formatted pre s")
  have out: "out = None" using forEach_write_ok(1) [OF pre, of formatted] p by simp
  have w1: "writable s1 = writable s" using forEach_write_frame [of formatted pre s] p by simp
  have c1: "writes (calls s1) = writes (calls s) @ map (\<lambda>r. (r, formatted)) pre"
    using forEach_write_ok(2) [OF pre, of formatted] p by simp
  have r1: "received s1 x = received s x @ (if writable s x = Accepting then replicate (count_list pre x) formatted else [])"
    using forEach_write_ok(3) [OF pre, of formatted x] p by simp
  obtain s2 out2 where w: "res_write res formatted s1 = (s2, out2)"
    by (cases "res_write res formatted s1")
  have out2: "out2 = Some e" using res_write_outcome [of res formatted s1] w w1 res by simp
  have run: "forEach_write formatted (pre @ res # post) s = (s2, Some e)"
    using p out w out2 by (simp add: forEach_write_append)
  show "snd (forEach_write formatted (pre @ res # post) s) = Some e" using run by simp
  have "calls s2 = calls s1 @ [ResWrite res formatted]"
    using res_write_frame(5) [of res formatted s1] w by simp
  then show "writes (calls (fst (forEach_write formatted (pre @ res # post) s)))
           = writes (calls s) @ map (\<lambda>r. (r, formatted)) (pre @ [res])"
    using run c1 by (simp add: writes_append)
  have "received s2 x = received s1 x"
    using res_write_received [of res formatted s1 x] w w1 res by simp
  then show "x \<notin> set pre \<Longrightarrow> received (fst (forEach_write formatted (pre @ res # post) s)) x = received s x"
    using run r1 by simp
qed

lemma called_frame:
  "sseClients (called c s) = sseClients s" "timers (called c s) = timers s"
  "next_timer (called c s) = next_timer s" "writable (called c s) = writable s"
  "received (called c s) = received s" "calls (called c s) = calls s @ [c]"
  by (simp_all add: called_def)

lemma broadcast_unfold:
  "broadcast data s = forEach_write (frame data) (sseClients s) (called (JSONStringify data) s)"
  by (simp add: broadcast_def Let_def called_frame)

lemma broadcast_frame:
  "sseClients (fst (broadcast data s)) = sseClients s"
  "timers (fst (broadcast data s)) = timers s"
  "next_timer (fst (broadcast data s)) = next_timer s"
  "writable (fst (broadcast data s)) = writable s"
  using forEach_write_frame [of "frame data" "sseClients s" "called (JSONStringify data) s"]
  by (simp_all add: broadcast_unfold called_frame)

lemma count_list_distinct: "distinct xs \<Longrightarrow> x \<in> set xs \<Longrightarrow> count_list xs x = 1"
  by (induction xs) auto

lemmas server_eval =
  init_server_def get_events_def res_write_def called_def setInterval_def clearInterval_def
  on_close_def broadcast_def Let_def quote_def escape_char_def
  own_properties_def is_array_index_def is_digit_def

lemma transcript_handlers:
  "on_transcript_partial text s = broadcast (payload (Partial text)) s"
  "on_transcript_final text s = broadcast (payload (Final text)) s"
  by (simp_all add: on_transcript_partial_def on_transcript_final_def)

lemma stringify_key_order:
  "json_stringify (JObj [(''b'', JNum ''1''), (''1'', JNum ''2'')])
     = ''{'' @ [CHR 0x22] @ ''1'' @ [CHR 0x22] @ '':2,'' @ [CHR 0x22] @ ''b'' @ [CHR 0x22] @ '':1}''"
  by (simp add: quote_def escape_char_def own_properties_def is_array_index_def is_digit_def
      digits_value_def)

text \<open>
  Claim C10. \<^verbatim>\<open>broadcast\<close> never changes the registry: whatever the event, the state
  and the outcome of the writes, \<^verbatim>\<open>sseClients\<close> (and the set of scheduled timers) is
  after the call what it was before.
\<close>

theorem broadcast_keeps_registry:
  "sseClients (fst (broadcast data s)) = sseClients s \<and>
   timers (fst (broadcast data s)) = timers s"
  by (simp add: broadcast_frame)

text \<open>Claim C10 with two subscribers, the first of which throws on write.\<close>

theorem broadcast_keeps_registry_witness:
  "sseClients (fst (broadcast JNull
       ((snd (connect_all [0, 1] init_server))
          \<lparr>writable := (writable init_server)(0 := Throwing StreamError)\<rparr>))) = [0, 1]"
  using broadcast_keeps_registry
    [of JNull "(snd (connect_all [0, 1] init_server))
          \<lparr>writable := (writable init_server)(0 := Throwing StreamError)\<rparr>"]
  by (simp add: server_eval)

text \<open>
  Claim C6, amended. The calls \<^verbatim>\<open>broadcast\<close> adds to the log are one \<^verbatim>\<open>JSON.stringify\<close> of the
  event followed by writes of one and the same chunk, \<open>frame data\<close>, to the
  registered subscribers in order, up to and including the first whose write throws.
  The call returns normally exactly when no write throws, and then every registered
  subscriber has been written to: one whose stream accepts has received the chunk once
  for each time it is registered, one whose stream rejects has received nothing. When
  the registered subscribers are distinct and all accept, each of them has received
  exactly that chunk, once.
\<close>

theorem broadcast_serialises_once:
  "calls (fst (broadcast data s)) =
     calls s @ JSONStringify data #
       map (\<lambda>res. ResWrite res (frame data))
         (takeWhile (\<lambda>res. \<not> throws (writable s res)) (sseClients s) @
          take 1 (dropWhile (\<lambda>res. \<not> throws (writable s res)) (sseClients s))) \<and>
   (snd (broadcast data s) = None) = (\<forall>res \<in> set (sseClients s). \<not> throws (writable s res)) \<and>
   ((\<forall>res \<in> set (sseClients s). \<not> throws (writable s res)) \<longrightarrow>
      (\<forall>x. received (fst (broadcast data s)) x =
         received s x @
           (if writable s x = Accepting
            then replicate (count_list (sseClients s) x) (frame data) else []))) \<and>
   ((\<forall>res \<in> set (sseClients s). writable s res = Accepting) \<and> distinct (sseClients s) \<longrightarrow>
      snd (broadcast data s) = None \<and>
      (\<forall>res \<in> set (sseClients s). received (fst (broadcast data s)) res = received s res @ [frame data]))"
proof (intro conjI impI allI)
  let ?s1 = "called (JSONStringify data) s"
  note fc = forEach_write_calls [of "frame data" "sseClients s" ?s1]
  show "calls (fst (broadcast data s)) =
     calls s @ JSONStringify data #
       map (\<lambda>res. ResWrite res (frame data))
         (takeWhile (\<lambda>res. \<not> throws (writable s res)) (sseClients s) @
          take 1 (dropWhile (\<lambda>res. \<not> throws (writable s res)) (sseClients s)))"
    using fc by (simp add: broadcast_unfold called_frame)
  show "(snd (broadcast data s) = None) = (\<forall>res \<in> set (sseClients s). \<not> throws (writable s res))"
    using fc by (simp add: broadcast_unfold called_frame)
next
  fix x
  assume "\<forall>res \<in> set (sseClients s). \<not> throws (writable s res)"
  then have nt: "\<forall>r \<in> set (sseClients s). \<not> throws (writable (called (JSONStringify data) s) r)"
    by (simp add: called_frame)
  show "received (fst (broadcast data s)) x =
         received s x @
           (if writable s x = Accepting
            then replicate (count_list (sseClients s) x) (frame data) else [])"
    using forEach_write_ok(3) [OF nt, of "frame data" x] by (simp add: broadcast_unfold called_frame)
next
  assume a: "(\<forall>res \<in> set (sseClients s). writable s res = Accepting) \<and> distinct (sseClients s)"
  let ?s1 = "called (JSONStringify data) s"
  from a have nt: "\<forall>r \<in> set (sseClients s). \<not> throws (writable ?s1 r)"
    by (simp add: called_frame)
  from forEach_write_ok(1) [OF nt] show "snd (broadcast data s) = None"
    by (simp add: broadcast_unfold)
  show "\<forall>res \<in> set (sseClients s). received (fst (broadcast data s)) res = received s res @ [frame data]"
  proof
    fix res assume r: "res \<in> set (sseClients s)"
    with a have "count_list (sseClients s) res = 1" "writable s res = Accepting"
      by (simp_all add: count_list_distinct)
    with forEach_write_ok(3) [OF nt, of "frame data" res]
    show "received (fst (broadcast data s)) res = received s res @ [frame data]"
      by (simp add: broadcast_unfold called_frame)
  qed
qed

text \<open>Claim C6, amended, with two accepting subscribers and a final event.\<close>

theorem broadcast_serialises_once_witness:
  "sseClients (snd (connect_all [0, 1] init_server)) = [0, 1] \<and>
   map (writable (snd (connect_all [0, 1] init_server))) [0, 1] = [Accepting, Accepting] \<and>
   distinct (sseClients (snd (connect_all [0, 1] init_server))) \<and>
   snd (broadcast (JObj [(''type'', JStr ''final''), (''text'', JStr ''ok'')])
          (snd (connect_all [0, 1] init_server))) = None \<and>
   map (received (fst (broadcast (JObj [(''type'', JStr ''final''), (''text'', JStr ''ok'')])
          (snd (connect_all [0, 1] init_server))))) [0, 1]
     = replicate (Suc (Suc 0))
        ['': connected'' @ [CHR 0x0A, CHR 0x0A],
         ''data: {'' @ [CHR 0x22] @ ''type'' @ [CHR 0x22] @ '':'' @ [CHR 0x22] @ ''final'' @ [CHR 0x22]
           @ '','' @ [CHR 0x22] @ ''text'' @ [CHR 0x22] @ '':'' @ [CHR 0x22] @ ''ok'' @ [CHR 0x22]
           @ ''}'' @ [CHR 0x0A, CHR 0x0A]]"
  using broadcast_serialises_once
    [where s = "snd (connect_all [0, 1] init_server)"
       and data = "JObj [(''type'', JStr ''final''), (''text'', JStr ''ok'')]"]
  by (simp add: server_eval)

text \<open>
  Claim C6 as stated fails. Three subscribers are connected; the stream of the first
  rejects writes and the stream of the second throws. The event is serialised once and
  written to the first two, the error leaves \<^verbatim>\<open>broadcast\<close>, the third is never
  written to, and none of the three has received the payload.
\<close>

theorem broadcast_serialises_once_counterexample:
  "(snd (broadcast JNull ((snd (connect_all [0, 1, 2] init_server))
       \<lparr>writable := (writable init_server)(0 := Rejecting, 1 := Throwing StreamError)\<rparr>)),
    drop 6 (calls (fst (broadcast JNull ((snd (connect_all [0, 1, 2] init_server))
       \<lparr>writable := (writable init_server)(0 := Rejecting, 1 := Throwing StreamError)\<rparr>)))),
    map (received (fst (broadcast JNull ((snd (connect_all [0, 1, 2] init_server))
       \<lparr>writable := (writable init_server)(0 := Rejecting, 1 := Throwing StreamError)\<rparr>)))) [0, 1, 2])
   = (Some StreamError,
      [JSONStringify JNull, ResWrite 0 (''data: null'' @ [CHR 0x0A, CHR 0x0A]),
       ResWrite 1 (''data: null'' @ [CHR 0x0A, CHR 0x0A])],
      [['': connected'' @ [CHR 0x0A, CHR 0x0A]], ['': connected'' @ [CHR 0x0A, CHR 0x0A]],
       ['': connected'' @ [CHR 0x0A, CHR 0x0A]]])"
  by (simp add: server_eval)

text \<open>
  Claim C4, amended. When no write to a registered subscriber throws, \<^verbatim>\<open>broadcast\<close>
  writes the event to exactly the subscribers registered when the loop starts, once
  each and in order, also when close handlers run between the writes and unregister
  subscribers; each of them whose stream accepts the write receives the chunk. The
  registry afterwards is the starting one without the closed connections. With no
  close handler in between this is \<^verbatim>\<open>broadcast\<close> itself. With no subscriber
  registered the call writes nothing, throws nothing and changes nothing but the log
  entry of the serialisation.
\<close>

theorem broadcast_snapshot:
  "((\<forall>res \<in> set (sseClients s). \<not> throws (writable s res)) \<longrightarrow>
      snd (broadcast_closing closing data s) = None \<and>
      writes (calls (fst (broadcast_closing closing data s))) =
        writes (calls s) @ map (\<lambda>res. (res, frame data)) (sseClients s) \<and>
      (\<forall>x. received (fst (broadcast_closing closing data s)) x =
         received s x @
           (if writable s x = Accepting
            then replicate (count_list (sseClients s) x) (frame data) else [])) \<and>
      sseClients (fst (broadcast_closing closing data s)) =
        filter (\<lambda>client. client \<notin> conn_res ` set (concat (map closing (sseClients s)))) (sseClients s)) \<and>
   broadcast_closing (\<lambda>res. []) data s = broadcast data s \<and>
   (sseClients s = [] \<longrightarrow> broadcast data s = (called (JSONStringify data) s, None))"
proof (intro conjI impI)
  assume "\<forall>res \<in> set (sseClients s). \<not> throws (writable s res)"
  then have nt: "\<forall>r \<in> set (sseClients s). \<not> throws (writable (called (JSONStringify data) s) r)"
    by (simp add: called_frame)
  have unfold: "broadcast_closing closing data s =
      forEach_write_closing closing (frame data) (sseClients s) (called (JSONStringify data) s)"
    by (simp add: broadcast_closing_def Let_def called_frame)
  note ok = forEach_write_closing_ok [OF nt, of closing "frame data"]
  show "snd (broadcast_closing closing data s) = None"
    using ok by (simp add: unfold)
  show "writes (calls (fst (broadcast_closing closing data s))) =
        writes (calls s) @ map (\<lambda>res. (res, frame data)) (sseClients s)"
    using ok by (simp add: unfold called_frame writes_append)
  show "sseClients (fst (broadcast_closing closing data s)) =
        filter (\<lambda>client. client \<notin> conn_res ` set (concat (map closing (sseClients s)))) (sseClients s)"
    using ok by (simp add: unfold called_frame)
  show "\<forall>x. received (fst (broadcast_closing closing data s)) x =
         received s x @
           (if writable s x = Accepting
            then replicate (count_list (sseClients s) x) (frame data) else [])"
    using ok by (simp add: unfold called_frame)
next
  show "broadcast_closing (\<lambda>res. []) data s = broadcast data s"
    by (simp add: broadcast_closing_def broadcast_def forEach_write_no_closing)
next
  assume "sseClients s = []"
  then show "broadcast data s = (called (JSONStringify data) s, None)"
    by (simp add: broadcast_unfold)
qed

text \<open>
  Claim C4, amended, with three subscribers, the second being unregistered while the
  first is written to, and with no subscriber at all.
\<close>

theorem broadcast_snapshot_witness:
  "sseClients (snd (connect_all [0, 1, 2] init_server)) = [0, 1, 2] \<and>
   map (writable (snd (connect_all [0, 1, 2] init_server))) [0, 1, 2]
     = [Accepting, Accepting, Accepting] \<and>
   writes (calls (fst (broadcast_closing ((\<lambda>res. [])(0 := [\<lparr>conn_res = 1, conn_keepAlive = 1\<rparr>])) JNull
       (snd (connect_all [0, 1, 2] init_server)))))
     = writes (calls (snd (connect_all [0, 1, 2] init_server)))
         @ [(0, ''data: null'' @ [CHR 0x0A, CHR 0x0A]), (1, ''data: null'' @ [CHR 0x0A, CHR 0x0A]),
            (2, ''data: null'' @ [CHR 0x0A, CHR 0x0A])] \<and>
   map (received (fst (broadcast_closing ((\<lambda>res. [])(0 := [\<lparr>conn_res = 1, conn_keepAlive = 1\<rparr>])) JNull
       (snd (connect_all [0, 1, 2] init_server))))) [0, 1, 2]
     = replicate (Suc (Suc (Suc 0)))
         ['': connected'' @ [CHR 0x0A, CHR 0x0A], ''data: null'' @ [CHR 0x0A, CHR 0x0A]] \<and>
   sseClients (fst (broadcast_closing ((\<lambda>res. [])(0 := [\<lparr>conn_res = 1, conn_keepAlive = 1\<rparr>])) JNull
       (snd (connect_all [0, 1, 2] init_server)))) = [0, 2] \<and>
   sseClients init_server = [] \<and>
   broadcast JNull init_server = (called (JSONStringify JNull) init_server, None)"
  using broadcast_snapshot
    [of "snd (connect_all [0, 1, 2] init_server)"
        "(\<lambda>res. [])(0 := [\<lparr>conn_res = 1, conn_keepAlive = 1\<rparr>])" JNull]
    broadcast_snapshot [of init_server "\<lambda>res. []" JNull]
  by (simp add: server_eval broadcast_closing_def)

text \<open>
  Claim C4 as stated fails. Three subscribers are registered when the loop starts and
  the stream of the second throws: the third is never written to.
\<close>

theorem broadcast_snapshot_counterexample:
  "(sseClients ((snd (connect_all [0, 1, 2] init_server))
       \<lparr>writable := (writable init_server)(1 := Throwing StreamError)\<rparr>),
    snd (broadcast JNull ((snd (connect_all [0, 1, 2] init_server))
       \<lparr>writable := (writable init_server)(1 := Throwing StreamError)\<rparr>)),
    writes (calls (fst (broadcast JNull ((snd (connect_all [0, 1, 2] init_server))
       \<lparr>writable := (writable init_server)(1 := Throwing StreamError)\<rparr>)))))
   = ([0, 1, 2], Some StreamError,
      [(0, '': connected'' @ [CHR 0x0A, CHR 0x0A]), (1, '': connected'' @ [CHR 0x0A, CHR 0x0A]),
       (2, '': connected'' @ [CHR 0x0A, CHR 0x0A]),
       (0, ''data: null'' @ [CHR 0x0A, CHR 0x0A]), (1, ''data: null'' @ [CHR 0x0A, CHR 0x0A])])"
  by (simp add: server_eval)

text \<open>
  Claim C1, amended. When no write throws (a write may report failure by its return
  value), \<^verbatim>\<open>broadcast\<close> returns normally, every accepting subscriber receives the
  chunk, and the registry is unchanged: a subscriber whose write failed stays
  registered. When the write to \<open>res\<close> throws \<open>e\<close> and no write before it does, the
  error leaves \<^verbatim>\<open>broadcast\<close>, the writes made are those to the subscribers up to and
  including \<open>res\<close>, every subscriber not before \<open>res\<close> has received nothing, and
  the registry is unchanged.
\<close>

theorem broadcast_write_failure:
  "((\<forall>res \<in> set (sseClients s). \<not> throws (writable s res)) \<longrightarrow>
      snd (broadcast data s) = None \<and>
      sseClients (fst (broadcast data s)) = sseClients s \<and>
      (\<forall>res. received (fst (broadcast data s)) res =
         received s res @
           (if writable s res = Accepting
            then replicate (count_list (sseClients s) res) (frame data) else []))) \<and>
   (sseClients s = pre @ res # post \<and> (\<forall>r \<in> set pre. \<not> throws (writable s r)) \<and>
    writable s res = Throwing e \<longrightarrow>
      snd (broadcast data s) = Some e \<and>
      sseClients (fst (broadcast data s)) = sseClients s \<and>
      writes (calls (fst (broadcast data s))) =
        writes (calls s) @ map (\<lambda>r. (r, frame data)) (pre @ [res]) \<and>
      (\<forall>x. x \<notin> set pre \<longrightarrow> received (fst (broadcast data s)) x = received s x))"
proof (intro conjI impI allI)
  assume "\<forall>res \<in> set (sseClients s). \<not> throws (writable s res)"
  then have nt: "\<forall>r \<in> set (sseClients s). \<not> throws (writable (called (JSONStringify data) s) r)"
    by (simp add: called_frame)
  show "snd (broadcast data s) = None"
    using forEach_write_ok(1) [OF nt] by (simp add: broadcast_unfold)
  show "sseClients (fst (broadcast data s)) = sseClients s"
    by (rule broadcast_frame)
  fix res
  show "received (fst (broadcast data s)) res =
         received s res @
           (if writable s res = Accepting
            then replicate (count_list (sseClients s) res) (frame data) else [])"
    using forEach_write_ok(3) [OF nt, of "frame data" res] by (simp add: broadcast_unfold called_frame)
next
  assume a: "sseClients s = pre @ res # post \<and> (\<forall>r \<in> set pre. \<not> throws (writable s r)) \<and>
    writable s res = Throwing e"
  let ?s1 = "called (JSONStringify data) s"
  from a have pre: "\<forall>r \<in> set pre. \<not> throws (writable ?s1 r)" and res: "writable ?s1 res = Throwing e"
    by (simp_all add: called_frame)
  have unfold: "broadcast data s = forEach_write (frame data) (pre @ res # post) ?s1"
    using a by (simp add: broadcast_unfold)
  show "snd (broadcast data s) = Some e"
    using forEach_write_throw(1) [OF pre res] by (simp add: unfold)
  show "sseClients (fst (broadcast data s)) = sseClients s"
    by (rule broadcast_frame)
  show "writes (calls (fst (broadcast data s))) =
        writes (calls s) @ map (\<lambda>r. (r, frame data)) (pre @ [res])"
    using forEach_write_throw(2) [OF pre res, of "frame data" post]
    by (simp add: unfold called_frame writes_append)
  fix x assume "x \<notin> set pre"
  then show "received (fst (broadcast data s)) x = received s x"
    using forEach_write_throw(3) [OF pre res, of x "frame data" post]
    by (simp add: unfold called_frame)
qed

text \<open>
  Claim C1, amended, with three subscribers: the second rejecting in the first run and
  throwing in the second.
\<close>

theorem broadcast_write_failure_witness:
  "sseClients ((snd (connect_all [0, 1, 2] init_server))
        \<lparr>writable := (writable init_server)(1 := Rejecting)\<rparr>) = [0, 1, 2] \<and>
   map (writable ((snd (connect_all [0, 1, 2] init_server))
        \<lparr>writable := (writable init_server)(1 := Rejecting)\<rparr>)) [0, 1, 2]
     = [Accepting, Rejecting, Accepting] \<and>
   snd (broadcast JNull ((snd (connect_all [0, 1, 2] init_server))
        \<lparr>writable := (writable init_server)(1 := Rejecting)\<rparr>)) = None \<and>
   sseClients (fst (broadcast JNull ((snd (connect_all [0, 1, 2] init_server))
        \<lparr>writable := (writable init_server)(1 := Rejecting)\<rparr>))) = [0, 1, 2] \<and>
   received (fst (broadcast JNull ((snd (connect_all [0, 1, 2] init_server))
        \<lparr>writable := (writable init_server)(1 := Rejecting)\<rparr>))) 2
     = ['': connected'' @ [CHR 0x0A, CHR 0x0A], ''data: null'' @ [CHR 0x0A, CHR 0x0A]] \<and>
   sseClients ((snd (connect_all [0, 1, 2] init_server))
        \<lparr>writable := (writable init_server)(1 := Throwing StreamError)\<rparr>) = [0] @ 1 # [2] \<and>
   writable ((snd (connect_all [0, 1, 2] init_server))
        \<lparr>writable := (writable init_server)(1 := Throwing StreamError)\<rparr>) 1 = Throwing StreamError \<and>
   snd (broadcast JNull ((snd (connect_all [0, 1, 2] init_server))
        \<lparr>writable := (writable init_server)(1 := Throwing StreamError)\<rparr>)) = Some StreamError \<and>
   received (fst (broadcast JNull ((snd (connect_all [0, 1, 2] init_server))
        \<lparr>writable := (writable init_server)(1 := Throwing StreamError)\<rparr>))) 2
     = ['': connected'' @ [CHR 0x0A, CHR 0x0A]]"
  using broadcast_write_failure
    [where s = "(snd (connect_all [0, 1, 2] init_server))\<lparr>writable := (writable init_server)(1 := Rejecting)\<rparr>"
       and data = JNull]
    broadcast_write_failure
    [where s = "(snd (connect_all [0, 1, 2] init_server))\<lparr>writable := (writable init_server)(1 := Throwing StreamError)\<rparr>"
       and data = JNull and pre = "[0]" and res = 1 and post = "[2]" and e = StreamError]
  by (simp add: server_eval)

text \<open>
  Claim C1 as stated fails. Two subscribers are connected and the stream of the first
  throws on write: the error leaves \<^verbatim>\<open>broadcast\<close>, the second subscriber has
  received nothing but the opening comment, and the first is still registered.
\<close>

theorem broadcast_write_throws_counterexample:
  "(snd (broadcast (JObj [(''type'', JStr ''partial''), (''text'', JStr ''x'')])
          ((snd (connect_all [0, 1] init_server))
             \<lparr>writable := (writable init_server)(0 := Throwing StreamError)\<rparr>)),
    received (fst (broadcast (JObj [(''type'', JStr ''partial''), (''text'', JStr ''x'')])
          ((snd (connect_all [0, 1] init_server))
             \<lparr>writable := (writable init_server)(0 := Throwing StreamError)\<rparr>))) 1,
    sseClients (fst (broadcast (JObj [(''type'', JStr ''partial''), (''text'', JStr ''x'')])
          ((snd (connect_all [0, 1] init_server))
             \<lparr>writable := (writable init_server)(0 := Throwing StreamError)\<rparr>))))
   = (Some StreamError, ['': connected'' @ [CHR 0x0A, CHR 0x0A]], [0, 1])"
  by (simp add: server_eval)

text \<open>
  Claim C7. Running the close handler of a connection twice leaves the registry and
  the scheduled timers as running it once does; running it for a response that is not
  registered leaves the registry as it is, and for a timer that is not scheduled
  leaves the timers as they are.
\<close>

theorem unregister_idempotent:
  "sseClients (on_close c (on_close c s)) = sseClients (on_close c s) \<and>
   timers (on_close c (on_close c s)) = timers (on_close c s) \<and>
   (conn_res c \<notin> set (sseClients s) \<longrightarrow> sseClients (on_close c s) = sseClients s) \<and>
   (conn_keepAlive c \<notin> set (timers s) \<longrightarrow> timers (on_close c s) = timers s)"
proof (intro conjI impI)
  show "sseClients (on_close c (on_close c s)) = sseClients (on_close c s)"
    by (simp add: on_close_frame)
  show "timers (on_close c (on_close c s)) = timers (on_close c s)"
    by (simp add: on_close_frame)
next
  assume "conn_res c \<notin> set (sseClients s)"
  then have "\<forall>client \<in> set (sseClients s). client \<noteq> conn_res c" by blast
  then show "sseClients (on_close c s) = sseClients s"
    by (simp add: on_close_frame)
next
  assume "conn_keepAlive c \<notin> set (timers s)"
  then show "timers (on_close c s) = timers s"
    by (simp add: on_close_frame)
qed

text \<open>Claim C7: two subscribers connect, the first closes, and its close handler runs again.\<close>

theorem unregister_idempotent_witness:
  "conn_res \<lparr>conn_res = 0, conn_keepAlive = 0\<rparr>
     \<notin> set (sseClients (on_close \<lparr>conn_res = 0, conn_keepAlive = 0\<rparr>
                (snd (connect_all [0, 1] init_server)))) \<and>
   conn_keepAlive \<lparr>conn_res = 0, conn_keepAlive = 0\<rparr>
     \<notin> set (timers (on_close \<lparr>conn_res = 0, conn_keepAlive = 0\<rparr>
                (snd (connect_all [0, 1] init_server)))) \<and>
   sseClients (on_close \<lparr>conn_res = 0, conn_keepAlive = 0\<rparr>
     (on_close \<lparr>conn_res = 0, conn_keepAlive = 0\<rparr> (snd (connect_all [0, 1] init_server)))) = [1] \<and>
   timers (on_close \<lparr>conn_res = 0, conn_keepAlive = 0\<rparr>
     (on_close \<lparr>conn_res = 0, conn_keepAlive = 0\<rparr> (snd (connect_all [0, 1] init_server)))) = [1]"
  using unregister_idempotent
    [of "\<lparr>conn_res = 0, conn_keepAlive = 0\<rparr>"
        "on_close \<lparr>conn_res = 0, conn_keepAlive = 0\<rparr> (snd (connect_all [0, 1] init_server))"]
  by (simp add: init_server_def get_events_def res_write_def called_def setInterval_def
      clearInterval_def on_close_def Let_def)

lemma get_events_ok:
  assumes "\<not> throws (writable s res)"
  shows "snd (get_events res s) = Inr \<lparr>conn_res = res, conn_keepAlive = next_timer s\<rparr>"
    and "sseClients (fst (get_events res s)) = sseClients s @ [res]"
    and "timers (fst (get_events res s)) = timers s @ [next_timer s]"
    and "next_timer (fst (get_events res s)) = Suc (next_timer s)"
    and "writable (fst (get_events res s)) = writable s"
    and "calls (fst (get_events res s)) =
           calls s @ [ResWrite res ('': connected'' @ [CHR 0x0A, CHR 0x0A]), SetInterval (next_timer s)]"
proof -
  obtain s1 out where w: "res_write res ('': connected'' @ [CHR 0x0A, CHR 0x0A]) s = (s1, out)"
    by (cases "res_write res ('': connected'' @ [CHR 0x0A, CHR 0x0A]) s")
  have out: "out = None"
    using w res_write_outcome [of res "'': connected'' @ [CHR 0x0A, CHR 0x0A]" s] assms
    by (cases "writable s res") simp_all
  have s1: "sseClients s1 = sseClients s" "timers s1 = timers s" "next_timer s1 = next_timer s"
    "writable s1 = writable s"
    "calls s1 = calls s @ [ResWrite res ('': connected'' @ [CHR 0x0A, CHR 0x0A])]"
    using w res_write_frame [of res "'': connected'' @ [CHR 0x0A, CHR 0x0A]" s] by simp_all
  have run: "get_events res s =
      ((called (SetInterval (next_timer s1)) s1)
         \<lparr>timers := timers s1 @ [next_timer s1], next_timer := Suc (next_timer s1),
          sseClients := sseClients s1 @ [res]\<rparr>,
       Inr \<lparr>conn_res = res, conn_keepAlive = next_timer s1\<rparr>)"
    using w out by (simp add: get_events_def setInterval_def Let_def called_def)
  show "snd (get_events res s) = Inr \<lparr>conn_res = res, conn_keepAlive = next_timer s\<rparr>"
    using run s1 by simp
  show "sseClients (fst (get_events res s)) = sseClients s @ [res]"
    using run s1 by simp
  show "timers (fst (get_events res s)) = timers s @ [next_timer s]"
    using run s1 by simp
  show "next_timer (fst (get_events res s)) = Suc (next_timer s)"
    using run s1 by simp
  show "writable (fst (get_events res s)) = writable s"
    using run s1 by (simp add: called_def)
  show "calls (fst (get_events res s)) =
           calls s @ [ResWrite res ('': connected'' @ [CHR 0x0A, CHR 0x0A]), SetInterval (next_timer s)]"
    using run s1 by (simp add: called_def)
qed

lemma connect_all_ok:
  assumes "\<forall>r \<in> set rs. \<not> throws (writable s r)"
  shows "map conn_res (fst (connect_all rs s)) = rs \<and>
         map conn_keepAlive (fst (connect_all rs s)) = [next_timer s ..< next_timer s + length rs] \<and>
         timers (snd (connect_all rs s)) = timers s @ [next_timer s ..< next_timer s + length rs] \<and>
         sseClients (snd (connect_all rs s)) = sseClients s @ rs \<and>
         (\<forall>t. count_list (calls (snd (connect_all rs s))) (ClearInterval t)
               = count_list (calls s) (ClearInterval t))"
  using assms
proof (induction rs arbitrary: s)
  case Nil
  show ?case by simp
next
  case (Cons r rs)
  from Cons.prems have nt: "\<not> throws (writable s r)" by simp
  obtain s1 res where g: "get_events r s = (s1, res)" by (cases "get_events r s")
  let ?c = "\<lparr>conn_res = r, conn_keepAlive = next_timer s\<rparr>"
  have res: "res = Inr ?c" using get_events_ok(1) [OF nt] g by simp
  have s1: "sseClients s1 = sseClients s @ [r]" "timers s1 = timers s @ [next_timer s]"
    "next_timer s1 = Suc (next_timer s)" "writable s1 = writable s"
    "calls s1 = calls s @ [ResWrite r ('': connected'' @ [CHR 0x0A, CHR 0x0A]), SetInterval (next_timer s)]"
    using get_events_ok(2-6) [OF nt] g by simp_all
  from Cons.prems s1(4) have "\<forall>r \<in> set rs. \<not> throws (writable s1 r)" by simp
  note ih = Cons.IH [OF this]
  obtain cs s2 where c: "connect_all rs s1 = (cs, s2)" by (cases "connect_all rs s1")
  have run: "connect_all (r # rs) s = (?c # cs, s2)"
    using g res c by simp
  have upt: "[next_timer s ..< next_timer s + length (r # rs)]
           = next_timer s # [Suc (next_timer s) ..< Suc (next_timer s) + length rs]"
  proof -
    have "[next_timer s ..< next_timer s + Suc (length rs)]
        = next_timer s # [Suc (next_timer s) ..< next_timer s + Suc (length rs)]"
      by (rule upt_conv_Cons) simp
    then show ?thesis by simp
  qed
  show ?case
    unfolding run upt using ih c s1 by simp
qed

text \<open>
  Claim C8. Start with no timer scheduled and let the requests \<open>rs\<close> connect, none of
  whose streams throws. Every request gets a connection and its own timer. After the
  close handlers of all these connections have run, each once and in any order, no
  timer is scheduled, and \<^verbatim>\<open>clearInterval\<close> has been called exactly once more on each
  connection's timer.
\<close>

theorem keepalive_timers_cancelled:
  assumes "\<forall>res \<in> set rs. \<not> throws (writable s res)"
    and "timers s = []"
    and "set order = set (fst (connect_all rs s))"
    and "distinct order"
  shows "map conn_res (fst (connect_all rs s)) = rs \<and>
         timers (snd (connect_all rs s)) = map conn_keepAlive (fst (connect_all rs s)) \<and>
         distinct (timers (snd (connect_all rs s))) \<and>
         timers (fold on_close order (snd (connect_all rs s))) = [] \<and>
         (\<forall>c \<in> set (fst (connect_all rs s)).
            count_list (calls (fold on_close order (snd (connect_all rs s)))) (ClearInterval (conn_keepAlive c))
              = count_list (calls s) (ClearInterval (conn_keepAlive c)) + 1)"
proof -
  obtain cs s1 where c: "connect_all rs s = (cs, s1)" by (cases "connect_all rs s")
  from connect_all_ok [OF assms(1)] c assms(2)
  have res: "map conn_res cs = rs"
    and ka: "map conn_keepAlive cs = [next_timer s ..< next_timer s + length rs]"
    and tm: "timers s1 = [next_timer s ..< next_timer s + length rs]"
    and cnt: "\<And>t. count_list (calls s1) (ClearInterval t) = count_list (calls s) (ClearInterval t)"
    by simp_all
  have tk: "timers s1 = map conn_keepAlive cs" using ka tm by simp
  have dist: "distinct (map conn_keepAlive cs)" using ka by simp
  have order: "set order = set cs" using assms(3) c by simp
  have "filter (\<lambda>t. t \<notin> conn_keepAlive ` set order) (map conn_keepAlive cs) = []"
    unfolding order by (simp add: filter_empty_conv)
  then have none: "timers (fold on_close order s1) = []"
    by (simp add: fold_on_close_timers tk)
  have once: "count_list (calls (fold on_close order s1)) (ClearInterval (conn_keepAlive c))
              = count_list (calls s) (ClearInterval (conn_keepAlive c)) + 1" if "c \<in> set cs" for c
  proof -
    have inj: "inj_on (\<lambda>c. ClearInterval (conn_keepAlive c)) (set order)"
      unfolding order using dist by (auto simp: distinct_map inj_on_def)
    have "c \<in> set order" using that order by simp
    then have "count_list (map (\<lambda>c. ClearInterval (conn_keepAlive c)) order) (ClearInterval (conn_keepAlive c))
        = count_list order c"
      using count_list_inj_map [OF inj, of c] by simp
    also have "\<dots> = 1" using assms(4) \<open>c \<in> set order\<close> by (rule count_list_distinct)
    finally show ?thesis by (simp add: fold_on_close_frame cnt)
  qed
  from res tk dist none once show ?thesis unfolding c by (simp add: tk)
qed

text \<open>Claim C8 with three connections closed in the order third, first, second.\<close>

theorem keepalive_timers_cancelled_witness:
  "map (writable init_server) [0, 1, 2] = [Accepting, Accepting, Accepting] \<and>
   timers init_server = [] \<and>
   set [\<lparr>conn_res = 2, conn_keepAlive = 2\<rparr>, \<lparr>conn_res = 0, conn_keepAlive = 0\<rparr>,
        \<lparr>conn_res = 1, conn_keepAlive = 1\<rparr>] = set (fst (connect_all [0, 1, 2] init_server)) \<and>
   distinct [\<lparr>conn_res = 2, conn_keepAlive = 2\<rparr>, \<lparr>conn_res = 0, conn_keepAlive = 0\<rparr>,
        \<lparr>conn_res = 1, conn_keepAlive = 1\<rparr>] \<and>
   timers (snd (connect_all [0, 1, 2] init_server)) = [0, 1, 2] \<and>
   timers (fold on_close [\<lparr>conn_res = 2, conn_keepAlive = 2\<rparr>, \<lparr>conn_res = 0, conn_keepAlive = 0\<rparr>,
        \<lparr>conn_res = 1, conn_keepAlive = 1\<rparr>] (snd (connect_all [0, 1, 2] init_server))) = []"
proof -
  have h1: "\<forall>res \<in> set [0, 1, 2]. \<not> throws (writable init_server res)"
    by (simp add: init_server_def)
  have h2: "timers init_server = []" by (simp add: init_server_def)
  have h3: "set [\<lparr>conn_res = 2, conn_keepAlive = 2\<rparr>, \<lparr>conn_res = 0, conn_keepAlive = 0\<rparr>,
        \<lparr>conn_res = 1, conn_keepAlive = 1\<rparr>] = set (fst (connect_all [0, 1, 2] init_server))"
    by (auto simp: server_eval)
  have h4: "distinct [\<lparr>conn_res = 2, conn_keepAlive = 2\<rparr>, \<lparr>conn_res = 0, conn_keepAlive = 0\<rparr>,
        \<lparr>conn_res = 1, conn_keepAlive = (1::nat)\<rparr>]" by simp
  have t: "timers (snd (connect_all [0, 1, 2] init_server)) = [0, 1, 2]"
    by (simp add: server_eval)
  have h0: "map (writable init_server) [0, 1, 2] = [Accepting, Accepting, Accepting]"
    by (simp add: init_server_def)
  from keepalive_timers_cancelled [OF h1 h2 h3 h4] h0 h2 h3 h4 t show ?thesis by blast
qed

lemma same_hub_refl: "same_hub s s"
  by (simp add: same_hub_def)

lemma same_hub_called: "same_hub s t \<Longrightarrow> same_hub (called c s) t"
  by (simp add: same_hub_def called_def)

lemma same_hub_res_write:
  assumes "same_hub s t"
  shows "snd (res_write res chunk s) = snd (res_write res chunk t)"
    and "same_hub (fst (res_write res chunk s)) (fst (res_write res chunk t))"
  using assms
  by (simp_all add: same_hub_def res_write_def called_def Let_def split: write_status.split)

lemma same_hub_forEach_write:
  "same_hub s t \<Longrightarrow>
     snd (forEach_write formatted rs s) = snd (forEach_write formatted rs t) \<and>
     same_hub (fst (forEach_write formatted rs s)) (fst (forEach_write formatted rs t))"
proof (induction rs arbitrary: s t)
  case Nil
  then show ?case by simp
next
  case (Cons r rs)
  obtain s1 o1 where ws: "res_write r formatted s = (s1, o1)" by (cases "res_write r formatted s")
  obtain t1 o2 where wt: "res_write r formatted t = (t1, o2)" by (cases "res_write r formatted t")
  from same_hub_res_write [OF Cons.prems, of r formatted] ws wt
  have eq: "o2 = o1" "same_hub s1 t1" by simp_all
  show ?case
  proof (cases o1)
    case None
    then have "forEach_write formatted (r # rs) s = forEach_write formatted rs s1"
      "forEach_write formatted (r # rs) t = forEach_write formatted rs t1"
      using ws wt eq(1) by simp_all
    with Cons.IH [OF eq(2)] show ?thesis by simp
  next
    case (Some e)
    then have "forEach_write formatted (r # rs) s = (s1, Some e)"
      "forEach_write formatted (r # rs) t = (t1, Some e)"
      using ws wt eq(1) by simp_all
    with eq(2) show ?thesis by simp
  qed
qed

lemma same_hub_broadcast:
  assumes "same_hub s t"
  shows "snd (broadcast data s) = snd (broadcast data t)"
    and "same_hub (fst (broadcast data s)) (fst (broadcast data t))"
proof -
  have h: "same_hub (called (JSONStringify data) s) (called (JSONStringify data) t)"
    using assms by (simp add: same_hub_def called_def)
  have c: "sseClients s = sseClients t" using assms by (simp add: same_hub_def)
  from same_hub_forEach_write [OF h, of "frame data" "sseClients s"]
  show "snd (broadcast data s) = snd (broadcast data t)"
    and "same_hub (fst (broadcast data s)) (fst (broadcast data t))"
    by (simp_all add: broadcast_unfold c)
qed

lemma same_hub_get_events:
  assumes "same_hub s t"
  shows "snd (get_events res s) = snd (get_events res t)"
    and "same_hub (fst (get_events res s)) (fst (get_events res t))"
proof -
  let ?chunk = "'': connected'' @ [CHR 0x0A, CHR 0x0A]"
  obtain s1 o1 where ws: "res_write res ?chunk s = (s1, o1)" by (cases "res_write res ?chunk s")
  obtain t1 o2 where wt: "res_write res ?chunk t = (t1, o2)" by (cases "res_write res ?chunk t")
  from same_hub_res_write [OF assms, of res ?chunk] ws wt
  have eq: "o2 = o1" "same_hub s1 t1" by simp_all
  have wt': "res_write res ?chunk t = (t1, o1)" using wt eq(1) by simp
  show "snd (get_events res s) = snd (get_events res t)"
    using ws wt' eq(2)
    by (cases o1) (simp_all add: get_events_def setInterval_def Let_def same_hub_def)
  show "same_hub (fst (get_events res s)) (fst (get_events res t))"
    using ws wt' eq(2)
    by (cases o1) (simp_all add: get_events_def setInterval_def Let_def same_hub_def called_def)
qed

lemma on_listening_no_key:
  "on_listening port None connect_error s =
     called (ConsoleError ''ASSEMBLYAI_API_KEY is not defined. Please set it in the environment.'' None)
       (called (ConsoleLog (''Server listening on port '' @ port)) s)"
  by (simp add: on_listening_def startStreaming_def Let_def)

text \<open>
  Claim C9. With the key absent, \<^verbatim>\<open>startStreaming\<close> logs that the key is not defined
  and resolves without creating the service, connecting or recording. The log of the
  listen callback then differs from the one of a failed connection, which ends with
  \<^verbatim>\<open>Error starting streaming:\<close> and the error. The hub is untouched: registry, timers
  and streams are as before, and a later \<^verbatim>\<open>broadcast\<close> or new subscriber behaves as it
  would have without the call.
\<close>

theorem missing_credential_degraded_mode:
  "startStreaming None connect_error s =
     (called (ConsoleError
        ''ASSEMBLYAI_API_KEY is not defined. Please set it in the environment.'' None) s, None) \<and>
   startStreaming (Some []) connect_error s = startStreaming None connect_error s \<and>
   calls (on_listening port None connect_error s) =
     calls s @ [ConsoleLog (''Server listening on port '' @ port),
                ConsoleError ''ASSEMBLYAI_API_KEY is not defined. Please set it in the environment.'' None] \<and>
   (key \<noteq> [] \<longrightarrow>
      calls (on_listening port (Some key) (Some e) s) =
        calls s @ [ConsoleLog (''Server listening on port '' @ port),
                   NewAssemblyAI key, CreateService, RealtimeOn ''open'',
                   RealtimeOn ''transcript.partial'', RealtimeOn ''transcript.final'',
                   RealtimeOn ''error'', RealtimeConnect,
                   ConsoleError ''Error starting streaming:'' (Some e)]) \<and>
   same_hub (on_listening port None connect_error s) s \<and>
   snd (broadcast data (on_listening port None connect_error s)) = snd (broadcast data s) \<and>
   same_hub (fst (broadcast data (on_listening port None connect_error s))) (fst (broadcast data s)) \<and>
   snd (get_events res (on_listening port None connect_error s)) = snd (get_events res s) \<and>
   same_hub (fst (get_events res (on_listening port None connect_error s))) (fst (get_events res s))"
proof -
  let ?s' = "on_listening port None connect_error s"
  have hub: "same_hub ?s' s"
    unfolding on_listening_no_key by (intro same_hub_called same_hub_refl)
  have a: "startStreaming None connect_error s =
     (called (ConsoleError
        ''ASSEMBLYAI_API_KEY is not defined. Please set it in the environment.'' None) s, None)"
    by (simp add: startStreaming_def)
  have b: "calls ?s' =
     calls s @ [ConsoleLog (''Server listening on port '' @ port),
                ConsoleError ''ASSEMBLYAI_API_KEY is not defined. Please set it in the environment.'' None]"
    unfolding on_listening_no_key by (simp add: called_def)
  have c: "key \<noteq> [] \<longrightarrow>
      calls (on_listening port (Some key) (Some e) s) =
        calls s @ [ConsoleLog (''Server listening on port '' @ port),
                   NewAssemblyAI key, CreateService, RealtimeOn ''open'',
                   RealtimeOn ''transcript.partial'', RealtimeOn ''transcript.final'',
                   RealtimeOn ''error'', RealtimeConnect,
                   ConsoleError ''Error starting streaming:'' (Some e)]"
    by (simp add: on_listening_def startStreaming_def Let_def called_def)
  have a': "startStreaming (Some []) connect_error s = startStreaming None connect_error s"
    by (simp add: startStreaming_def)
  from a a' b c hub same_hub_broadcast [OF hub, of data] same_hub_get_events [OF hub, of res]
  show ?thesis by blast
qed

text \<open>Claim C9 from the initial state, against a refused connection with a key present.\<close>

theorem missing_credential_degraded_mode_witness:
  "''secret'' \<noteq> [] \<and>
   last (calls (on_listening ''3000'' (Some ''secret'') (Some (ServiceError ''refused'')) init_server))
     = ConsoleError ''Error starting streaming:'' (Some (ServiceError ''refused'')) \<and>
   last (calls (on_listening ''3000'' None None init_server))
     = ConsoleError ''ASSEMBLYAI_API_KEY is not defined. Please set it in the environment.'' None \<and>
   same_hub (on_listening ''3000'' None None init_server) init_server"
  using missing_credential_degraded_mode
    [of None init_server "''3000''" "''secret''" "ServiceError ''refused''" JNull 0]
  by simp

end
